theory Spec2Isabelle
  imports Main "HOL-Library.Sublist"
begin

section \<open>Data model (src/database/schema.ts)\<close>

text \<open>
  In this copy of the repository the text of \<open>schema.ts\<close> stands at the end of the file
  \<open>src/App.tsx\<close>, and the text of \<open>upsertRecordSql.ts\<close> at the end of
  \<open>src/database/context.tsx\<close>.

  The schema declares three SQL tables (\<open>counter\<close>, \<open>thread\<close>, \<open>message\<close>) and the
  TypeScript type \<open>RecordTable = keyof TableToRecord\<close> with the four keys below. Note that
  \<open>thread_message\<close> is a \<open>RecordTable\<close> without a \<open>CREATE TABLE\<close> statement.
\<close>

datatype RecordTable = counter | thread | thread_message | message

fun table_name :: "RecordTable \<Rightarrow> string" where
  "table_name counter = ''counter''"
| "table_name thread = ''thread''"
| "table_name thread_message = ''thread_message''"
| "table_name message = ''message''"

text \<open>
  A JavaScript \<open>number\<close> is a double. The model tells apart what the engine's binding
  tells apart: an integer (\<open>Number.isInteger\<close>), \<open>NaN\<close>, and every other double, a
  finite value with a fractional part or an infinity, which is kept opaque. Not every
  integer is a double: \<open>Integral\<close> admits more integers than JavaScript has, so
  what is shown for every \<open>Integral n\<close> covers every integral number.
\<close>

typedecl fraction

datatype number = Integral int | Fraction fraction | NaN

text \<open>The record types of \<open>TableToRecord\<close>.\<close>

datatype CounterRecord = CounterRecord (counter_id: string) (counter_value: number)
datatype ThreadRecord = ThreadRecord (thread_id: string) (thread_subject: string)
datatype ThreadMessageRecord =
  ThreadMessageRecord (tm_id: string) (tm_thread_id: string) (tm_message_id: string)
datatype MessageRecord = MessageRecord (message_id: string) (message_content: string)

text \<open>\<open>RecordValue<T>\<close>, as the union over all tables \<open>T\<close>.\<close>

datatype RecordValue =
    CounterValue CounterRecord
  | ThreadValue ThreadRecord
  | ThreadMessageValue ThreadMessageRecord
  | MessageValue MessageRecord

text \<open>
  \<open>RecordMap = { [Table in RecordTable]: { [recordId: string]: RecordValue<Table> } }\<close>.
  A bucket is the entry of one table: its key and the object holding that table's records,
  as the list of the object's own \<open>(recordId, record)\<close> properties in enumeration order.
  A \<open>RecordMap\<close> is the list of its entries in enumeration order. Callers such as
  Counter.tsx pass maps holding only some of the tables.
\<close>

datatype bucket =
    CounterBucket "(string \<times> CounterRecord) list"
  | ThreadBucket "(string \<times> ThreadRecord) list"
  | ThreadMessageBucket "(string \<times> ThreadMessageRecord) list"
  | MessageBucket "(string \<times> MessageRecord) list"

type_synonym RecordMap = "bucket list"

fun bucket_table :: "bucket \<Rightarrow> RecordTable" where
  "bucket_table (CounterBucket rows) = counter"
| "bucket_table (ThreadBucket rows) = thread"
| "bucket_table (ThreadMessageBucket rows) = thread_message"
| "bucket_table (MessageBucket rows) = message"

text \<open>\<open>Object.keys(rows)\<close> and \<open>Object.values(rows)\<close> of a bucket.\<close>

fun bucket_keys :: "bucket \<Rightarrow> string list" where
  "bucket_keys (CounterBucket rows) = map fst rows"
| "bucket_keys (ThreadBucket rows) = map fst rows"
| "bucket_keys (ThreadMessageBucket rows) = map fst rows"
| "bucket_keys (MessageBucket rows) = map fst rows"

fun bucket_values :: "bucket \<Rightarrow> RecordValue list" where
  "bucket_values (CounterBucket rows) = map (CounterValue \<circ> snd) rows"
| "bucket_values (ThreadBucket rows) = map (ThreadValue \<circ> snd) rows"
| "bucket_values (ThreadMessageBucket rows) = map (ThreadMessageValue \<circ> snd) rows"
| "bucket_values (MessageBucket rows) = map (MessageValue \<circ> snd) rows"

text \<open>\<open>Object.keys(recordMap)\<close>.\<close>

definition Object_keys :: "RecordMap \<Rightarrow> string list" where
  "Object_keys recordMap = map (table_name \<circ> bucket_table) recordMap"

text \<open>\<open>interface DatabaseChange { tableNames: string[]; changes: RecordMap }\<close>\<close>

record DatabaseChange =
  tableNames :: "string list"
  changes :: RecordMap

text \<open>
  Errors are values. \<open>Error\<close> and \<open>TypeError\<close> are the JavaScript exceptions with
  their messages, \<open>SQLite3Error\<close> is an exception of the SQLite engine and
  \<open>ParserError\<close> one of the SQL parser.
\<close>

datatype error =
    Error string
  | TypeError string
  | SQLite3Error string
  | ParserError string


section \<open>Table-name extraction (src/database/parseTableNames.ts)\<close>

text \<open>
  The parser (\<open>parse\<close> of pgsql-ast-parser) is a library: it is a parameter of the
  model. The only thing the code does with a parsed statement is to run
  \<open>astVisitor\<close> over it with a \<open>tableRef\<close> handler, so a statement is represented by
  the names of the table references in the order the visitor reaches them.
\<close>

datatype Statement = Statement (tableRefs: "string list")

type_synonym parser = "string \<Rightarrow> error + Statement list"

text \<open>\<open>tables.add(t.name)\<close> on a JavaScript \<open>Set\<close>, kept in insertion order.\<close>

definition Set_add :: "'a \<Rightarrow> 'a list \<Rightarrow> 'a list" where
  "Set_add x xs = (if x \<in> set xs then xs else xs @ [x])"

definition parseTestTableNames :: "parser \<Rightarrow> string \<Rightarrow> error + string list" where
  "parseTestTableNames parse sqlQuery =
     (case parse sqlQuery of
        Inl e \<Rightarrow> Inl e
      | Inr statements \<Rightarrow>
          if length statements \<noteq> 1
          then Inl (Error ''Must receive exactly one SQL statement'')
          else Inr (fold Set_add (tableRefs (statements ! 0)) []))"

text \<open>
  \<open>hasIntersection\<close>: the two nested loops. The inner loop over \<open>second\<close> for one
  \<open>tablename\<close> is \<open>hasIntersection_inner\<close>.
\<close>

fun hasIntersection_inner :: "('a \<Rightarrow> 'b \<Rightarrow> bool) \<Rightarrow> 'a \<Rightarrow> 'b list \<Rightarrow> bool" where
  "hasIntersection_inner isEqual tablename [] = False"
| "hasIntersection_inner isEqual tablename (candidate # rest) =
     (if isEqual tablename candidate then True
      else hasIntersection_inner isEqual tablename rest)"

fun hasIntersection :: "'a list \<Rightarrow> 'b list \<Rightarrow> ('a \<Rightarrow> 'b \<Rightarrow> bool) \<Rightarrow> bool" where
  "hasIntersection [] second isEqual = False"
| "hasIntersection (tablename # rest) second isEqual =
     (if hasIntersection_inner isEqual tablename second then True
      else hasIntersection rest second isEqual)"

text \<open>The default \<open>isEqual = Object.is\<close>; on strings it is equality of values.\<close>

definition Object_is :: "string \<Rightarrow> string \<Rightarrow> bool" where
  "Object_is a b = (a = b)"


section \<open>Upsert rules (src/database/upsertRecordSql.ts)\<close>

text \<open>
  The JavaScript values that the code passes on to the engine as bound values: the
  properties of a record, which are strings and numbers, or \<open>undefined\<close> for a
  property that the record does not have.
\<close>

datatype JsValue = JsString string | JsNumber number | JsUndefined

text \<open>
  A statement of sql-template-tag, as far as the code reads it: the properties \<open>sql\<close>
  and \<open>values\<close>.
\<close>

record Sql =
  sql_text :: string
  sql_values :: "JsValue list"

text \<open>
  The tag \<open>sql\<close> of sql-template-tag: \<open>sql\<close> is the strings of the template literal
  joined by \<open>?\<close>, \<open>values\<close> are the interpolated values, unchanged.
\<close>

fun join_strings :: "string list \<Rightarrow> string" where
  "join_strings [] = []"
| "join_strings [s] = s"
| "join_strings (s # t # ss) = s @ ''?'' @ join_strings (t # ss)"

definition sql_tag :: "string list \<Rightarrow> JsValue list \<Rightarrow> Sql" where
  "sql_tag strings vs = \<lparr>sql_text = join_strings strings, sql_values = vs\<rparr>"

text \<open>
  \<open>record.id\<close> and \<open>record.value\<close>. Only a counter record has a \<open>value\<close>; on
  any other record the property is \<open>undefined\<close>.
\<close>

fun record_id :: "RecordValue \<Rightarrow> JsValue" where
  "record_id (CounterValue r) = JsString (counter_id r)"
| "record_id (ThreadValue r) = JsString (thread_id r)"
| "record_id (ThreadMessageValue r) = JsString (tm_id r)"
| "record_id (MessageValue r) = JsString (message_id r)"

fun record_value :: "RecordValue \<Rightarrow> JsValue" where
  "record_value (CounterValue r) = JsNumber (counter_value r)"
| "record_value r = JsUndefined"

text \<open>
  The strings of the template literal of the only rule, around its three interpolations,
  and the text of the statement they give.
\<close>

definition counter_upsert_strings :: "string list" where
  "counter_upsert_strings =
     [''\<newline>    INSERT INTO counter (\<newline>      id, \<newline>      value\<newline>    ) \<newline>    VALUES (\<newline>      '',
      '', \<newline>      '',
      ''\<newline>    ) \<newline>    ON CONFLICT(id) \<newline>    DO UPDATE SET \<newline>      value = '',
      '';\<newline>  '']"

definition counter_upsert_text :: string where
  "counter_upsert_text = join_strings counter_upsert_strings"

text \<open>
  The object \<open>upsertRecordMap\<close>: it has the single own property \<open>counter\<close>. Looking up
  any other \<open>RecordTable\<close> gives \<open>undefined\<close> (\<open>None\<close>): none of the four names is
  a property that the object inherits.
\<close>

fun upsertRecordMap :: "RecordTable \<Rightarrow> (RecordValue \<Rightarrow> Sql) option" where
  "upsertRecordMap counter =
     Some (\<lambda>record. sql_tag counter_upsert_strings
                      [record_id record, record_value record, record_value record])"
| "upsertRecordMap thread = None"
| "upsertRecordMap thread_message = None"
| "upsertRecordMap message = None"

text \<open>
  \<open>upsertRecordSql(table, record) = upsertRecordMap[table](record)\<close>. Calling
  \<open>undefined\<close> throws a \<open>TypeError\<close>.
\<close>

definition upsertRecordSql :: "RecordTable \<Rightarrow> RecordValue \<Rightarrow> error + Sql" where
  "upsertRecordSql table record =
     (case upsertRecordMap table of
        None \<Rightarrow> Inl (TypeError ''upsertRecordMap[table] is not a function'')
      | Some rule \<Rightarrow> Inr (rule record))"


section \<open>The SQLite engine\<close>

text \<open>
  The engine is a library. Its state is modelled after the schema: every table has the
  primary key \<open>id TEXT\<close>, so a table is a map from the id to the other columns
  (\<open>counter.value INTEGER NOT NULL\<close>, \<open>thread.subject\<close>, \<open>message.thread_id\<close> and
  \<open>message.content\<close>). \<open>SqlValue\<close> is the part of the engine's value type that the
  code's bindings reach. The type \<open>INTEGER\<close> of a column is an affinity: the column
  \<open>counter.value\<close> holds any value but NULL, an integer of 64 bits or a real.
\<close>

datatype SqlValue = SqlNull | SqlInteger int | SqlReal fraction | SqlText string

record Database =
  counter_table :: "string \<rightharpoonup> SqlValue"
  thread_table :: "string \<rightharpoonup> string"
  message_table :: "string \<rightharpoonup> string \<times> string"

type_synonym engine = "Database \<Rightarrow> Sql \<Rightarrow> error + Database"

text \<open>
  How the library binds the elements of the array \<open>bind\<close>. A string is bound as text
  and \<open>undefined\<close> as NULL. A number that is an int32 is bound by \<open>sqlite3_bind_int\<close>;
  any other integer by \<open>sqlite3_bind_int64\<close>, whose argument is converted to a signed
  integer of 64 bits and wraps around; any other number by \<open>sqlite3_bind_double\<close>, and
  the engine takes the double \<open>NaN\<close> for NULL.
\<close>

definition isInt32 :: "int \<Rightarrow> bool" where
  "isInt32 n = (- (2 ^ 31) \<le> n \<and> n < 2 ^ 31)"

definition int64 :: "int \<Rightarrow> int" where
  "int64 n = (n + 2 ^ 63) mod 2 ^ 64 - 2 ^ 63"

fun bind_number :: "number \<Rightarrow> SqlValue" where
  "bind_number (Integral n) = SqlInteger (if isInt32 n then n else int64 n)"
| "bind_number (Fraction f) = SqlReal f"
| "bind_number NaN = SqlNull"

fun bind_value :: "JsValue \<Rightarrow> SqlValue" where
  "bind_value (JsString s) = SqlText s"
| "bind_value (JsNumber v) = bind_number v"
| "bind_value JsUndefined = SqlNull"

text \<open>
  What SQLite does with the counter rule's statement and its three bound values. The
  row to insert is checked first: a NULL for \<open>value\<close> violates NOT NULL and the
  statement fails. Then a row with that id is updated to the third value, which must not
  be NULL either; without such a row the row of the first two values is inserted. The
  model covers the statement the rule generates, with a text for the id and numbers for
  the value; any other statement or binding is answered by an error.
\<close>

fun is_numeric :: "SqlValue \<Rightarrow> bool" where
  "is_numeric (SqlInteger n) = True"
| "is_numeric (SqlReal f) = True"
| "is_numeric v = False"

definition not_null_failed :: error where
  "not_null_failed = SQLite3Error ''NOT NULL constraint failed: counter.value''"

definition outside_model :: error where
  "outside_model = SQLite3Error ''binding outside the model''"

fun counter_upsert :: "Database \<Rightarrow> SqlValue list \<Rightarrow> error + Database" where
  "counter_upsert d [SqlText i, inserted, updated] =
     (if inserted = SqlNull then Inl not_null_failed
      else if \<not> is_numeric inserted then Inl outside_model
      else if i \<notin> dom (counter_table d)
        then Inr (d\<lparr>counter_table := (counter_table d)(i \<mapsto> inserted)\<rparr>)
      else if updated = SqlNull then Inl not_null_failed
      else if \<not> is_numeric updated then Inl outside_model
      else Inr (d\<lparr>counter_table := (counter_table d)(i \<mapsto> updated)\<rparr>))"
| "counter_upsert d bound = Inl outside_model"

definition sqlite_exec :: engine where
  "sqlite_exec d statement =
     (if sql_text statement = counter_upsert_text
        then counter_upsert d (map bind_value (sql_values statement))
      else Inl (SQLite3Error ''statement outside the model''))"

text \<open>
  \<open>db.transaction(callback)\<close>: BEGIN, the callback, COMMIT; when the callback throws,
  ROLLBACK and the exception is thrown on.
\<close>

definition transaction ::
  "(Database \<Rightarrow> error + Database) \<Rightarrow> Database \<Rightarrow> error option \<times> Database" where
  "transaction callback db =
     (case callback db of
        Inl e \<Rightarrow> (Some e, db)
      | Inr db' \<Rightarrow> (None, db'))"

text \<open>
  The rows of \<open>SELECT * FROM ${table} WHERE ${table}.id = $1 LIMIT 1\<close> in row mode
  \<open>object\<close>, followed by \<open>resultRows[0] || null\<close>. The schema has no table
  \<open>thread_message\<close>.
\<close>

datatype Row =
    CounterRow string SqlValue
  | ThreadRow string string
  | MessageRow string string string

fun select_record :: "RecordTable \<Rightarrow> string \<Rightarrow> Database \<Rightarrow> error + Row option" where
  "select_record counter i db = Inr (map_option (CounterRow i) (counter_table db i))"
| "select_record thread i db = Inr (map_option (ThreadRow i) (thread_table db i))"
| "select_record message i db =
     Inr (map_option (\<lambda>(t, c). MessageRow i t c) (message_table db i))"
| "select_record thread_message i db = Inl (SQLite3Error ''no such table: thread_message'')"


section \<open>The client (src/database/SqliteDatabase.ts)\<close>

text \<open>
  The functions held in \<open>changeSubscriptions\<close>. A JavaScript function is an object with
  an identity, here a number, and a body. The handler tells which arrow function of the
  source the body is and holds the variables it closes over:
  \<^item> \<open>QueryHandler\<close>: the callback of \<open>liveQuery\<close> and \<open>observeQuery\<close>, closing over
    \<open>affectedTableNames\<close>;
  \<^item> \<open>RecordHandler\<close>: the callback of \<open>liveRecord\<close> and \<open>observeRecord\<close>, closing
    over \<open>table\<close> and \<open>id\<close>;
  \<^item> \<open>PlainHandler\<close>: any other function given to \<open>subscribeToRowChanges\<close>.
\<close>

datatype handler =
    QueryHandler "string list"
  | RecordHandler RecordTable string
  | PlainHandler

datatype callback = Callback (callback_id: nat) (callback_handler: handler)

text \<open>
  The \<open>in\<close> operator on an object created by an object literal: true for an own
  property and for a property inherited from \<open>Object.prototype\<close>.
\<close>

definition Object_prototype :: "string list" where
  "Object_prototype =
     [''constructor'', ''__defineGetter__'', ''__defineSetter__'', ''hasOwnProperty'',
      ''__lookupGetter__'', ''__lookupSetter__'', ''isPrototypeOf'',
      ''propertyIsEnumerable'', ''toString'', ''valueOf'', ''__proto__'',
      ''toLocaleString'']"

definition js_in :: "string \<Rightarrow> string list \<Rightarrow> bool" where
  "js_in key own_keys = (key \<in> set own_keys \<or> key \<in> set Object_prototype)"

text \<open>\<open>changes[table]\<close>: the own property of that name, if there is one.\<close>

fun get_bucket :: "RecordMap \<Rightarrow> RecordTable \<Rightarrow> bucket option" where
  "get_bucket [] table = None"
| "get_bucket (b # bs) table = (if bucket_table b = table then Some b else get_bucket bs table)"

text \<open>
  Whether a callback, called with a change, goes on to call its \<open>onChange\<close>:
  \<^item> \<open>if (!hasIntersection(affectedTableNames, tableNames)) return; onChange();\<close>
  \<^item> \<open>if (!(table in changes) || !(id in changes[table])) return; onChange();\<close>
  No name of a \<open>RecordTable\<close> is a property of \<open>Object.prototype\<close>, so when
  \<open>table in changes\<close> holds, \<open>changes[table]\<close> is an own property.
\<close>

fun calls_onChange :: "handler \<Rightarrow> DatabaseChange \<Rightarrow> bool" where
  "calls_onChange (QueryHandler affectedTableNames) change =
     (if \<not> hasIntersection affectedTableNames (tableNames change) Object_is then False
      else True)"
| "calls_onChange (RecordHandler table i) change =
     (if \<not> js_in (table_name table) (Object_keys (changes change)) \<or>
         \<not> (case get_bucket (changes change) table of
              Some b \<Rightarrow> js_in i (bucket_keys b)
            | None \<Rightarrow> False)
      then False else True)"
| "calls_onChange PlainHandler change = True"

record SQLiteClient =
  db :: Database
  changeSubscriptions :: "callback list"

text \<open>
  \<open>subscribeToRowChanges\<close>: \<open>Set.add\<close>; the function it returns is \<open>Set.delete\<close> of
  the same callback (\<open>unsubscribeFromRowChanges\<close>).
\<close>

definition subscribeToRowChanges :: "callback \<Rightarrow> SQLiteClient \<Rightarrow> SQLiteClient" where
  "subscribeToRowChanges cb client =
     client\<lparr>changeSubscriptions := Set_add cb (changeSubscriptions client)\<rparr>"

definition unsubscribeFromRowChanges :: "callback \<Rightarrow> SQLiteClient \<Rightarrow> SQLiteClient" where
  "unsubscribeFromRowChanges cb client =
     client\<lparr>changeSubscriptions := removeAll cb (changeSubscriptions client)\<rparr>"

text \<open>
  \<open>emitTableChanges\<close>: the calls it makes, in the order of the set: every subscribed
  callback is called with the change. (A callback that throws would end the loop. The
  callbacks that the functions of this file subscribe do not throw, and the others are
  taken not to.)
\<close>

definition emitTableChanges :: "SQLiteClient \<Rightarrow> DatabaseChange \<Rightarrow> (callback \<times> DatabaseChange) list" where
  "emitTableChanges client change = map (\<lambda>cb. (cb, change)) (changeSubscriptions client)"

text \<open>
  The body of the inner loop of \<open>writeRecordMap\<close>, one upsert:
  \<open>const query = upsertRecordSql(table, row); db.exec({sql: query.sql, bind: query.values})\<close>.
\<close>

definition upsert :: "engine \<Rightarrow> RecordTable \<Rightarrow> RecordValue \<Rightarrow> Database \<Rightarrow> error + Database" where
  "upsert exec table row d =
     (case upsertRecordSql table row of
        Inl e \<Rightarrow> Inl e
      | Inr statement \<Rightarrow> exec d statement)"

text \<open>The two loops of \<open>writeRecordMap\<close>, inside the transaction.\<close>

fun upsert_rows :: "engine \<Rightarrow> RecordTable \<Rightarrow> RecordValue list \<Rightarrow> Database \<Rightarrow> error + Database" where
  "upsert_rows exec table [] d = Inr d"
| "upsert_rows exec table (row # rows) d =
     (case upsert exec table row d of
        Inl e \<Rightarrow> Inl e
      | Inr d' \<Rightarrow> upsert_rows exec table rows d')"

fun upsert_entries :: "engine \<Rightarrow> RecordMap \<Rightarrow> Database \<Rightarrow> error + Database" where
  "upsert_entries exec [] d = Inr d"
| "upsert_entries exec (b # bs) d =
     (case upsert_rows exec (bucket_table b) (bucket_values b) d of
        Inl e \<Rightarrow> Inl e
      | Inr d' \<Rightarrow> upsert_entries exec bs d')"

text \<open>
  \<open>writeRecordMap\<close>. The result holds the exception the returned promise is rejected
  with (if any), the client afterwards, the changes that \<open>emitTableChanges\<close> was called
  with, and the callback calls it made.
\<close>

record write_result =
  rejected :: "error option"
  client_after :: SQLiteClient
  emitted_changes :: "DatabaseChange list"
  callback_calls :: "(callback \<times> DatabaseChange) list"

definition writeRecordMap :: "engine \<Rightarrow> SQLiteClient \<Rightarrow> RecordMap \<Rightarrow> write_result" where
  "writeRecordMap exec client recordMap =
     (case transaction (upsert_entries exec recordMap) (db client) of
        (Some e, d) \<Rightarrow>
          \<lparr>rejected = Some e, client_after = client\<lparr>db := d\<rparr>,
           emitted_changes = [], callback_calls = []\<rparr>
      | (None, d) \<Rightarrow>
          (let change = \<lparr>tableNames = Object_keys recordMap, changes = recordMap\<rparr>
           in \<lparr>rejected = None, client_after = client\<lparr>db := d\<rparr>,
               emitted_changes = [change],
               callback_calls = emitTableChanges (client\<lparr>db := d\<rparr>) change\<rparr>))"


section \<open>Live queries, live records and their observables\<close>

text \<open>
  The read side of the engine (\<open>exec\<close> with \<open>returnValue: 'resultRows'\<close>) on an
  arbitrary statement is a parameter: the rows, or the exception of the engine.
\<close>

type_synonym reader = "Database \<Rightarrow> Sql \<Rightarrow> error + Row list"

text \<open>
  The argument of \<open>observable\<close>, which is also what \<open>liveQuery\<close> and \<open>liveRecord\<close>
  return (there \<open>subscribeToQuery\<close> is called \<open>subscribe\<close>).
  \<^item> \<open>runQuery\<close> calls the engine at once (the engine is synchronous, \<open>exec\<close> only wraps
    its result in a promise): it maps the database of the moment of the call to what
    the promise is settled with, the result or the exception.
  \<^item> \<open>subscribeToQuery\<close> is the body of the callback it hands to
    \<open>subscribeToRowChanges\<close>, whose \<open>onChange\<close> is the function it was called with.
\<close>

record 'r observable_args =
  runQuery :: "Database \<Rightarrow> error + 'r"
  subscribeToQuery :: handler

definition liveRecord :: "RecordTable \<Rightarrow> string \<Rightarrow> (Row option) observable_args" where
  "liveRecord table i =
     \<lparr>runQuery = select_record table i,
      subscribeToQuery = RecordHandler table i\<rparr>"

definition observeRecord :: "RecordTable \<Rightarrow> string \<Rightarrow> (Row option) observable_args" where
  "observeRecord table i =
     \<lparr>runQuery = select_record table i,
      subscribeToQuery = RecordHandler table i\<rparr>"

definition liveQuery :: "parser \<Rightarrow> reader \<Rightarrow> Sql \<Rightarrow> error + (Row list) observable_args" where
  "liveQuery parse exec statement =
     (case parseTestTableNames parse (sql_text statement) of
        Inl e \<Rightarrow> Inl e
      | Inr affectedTableNames \<Rightarrow>
          if length affectedTableNames = 0
          then Inl (Error ''Could not calculate selected table names'')
          else Inr \<lparr>runQuery = (\<lambda>d. exec d statement),
                    subscribeToQuery = QueryHandler affectedTableNames\<rparr>)"

definition observeQuery :: "parser \<Rightarrow> reader \<Rightarrow> Sql \<Rightarrow> error + (Row list) observable_args" where
  "observeQuery parse exec statement =
     (case parseTestTableNames parse (sql_text statement) of
        Inl e \<Rightarrow> Inl e
      | Inr affectedTableNames \<Rightarrow>
          if length affectedTableNames = 0
          then Inl (Error ''Could not calculate selected table names'')
          else Inr \<lparr>runQuery = (\<lambda>d. exec d statement),
                    subscribeToQuery = QueryHandler affectedTableNames\<rparr>)"


section \<open>The function \<open>observable\<close>\<close>

text \<open>
  \<open>observable\<close> composes four pieces of RxJS 7: the producer of \<open>new Observable\<close>,
  \<open>throttle(() => from(query), {leading: true, trailing: true})\<close>,
  \<open>switchMap(() => { query = runQuery(); return query })\<close> and
  \<open>share({resetOnRefCountZero: true})\<close>. The state below holds the variables of these
  operators; the functions that follow are their handlers. RxJS is a library; what the
  model takes from it is this:
  \<^item> \<open>throttle\<close> with \<open>leading\<close> and \<open>trailing\<close>: a value from the source is held
    (\<open>hasValue\<close>) and, unless a duration is running, sent at once. Sending passes the
    value on and then subscribes to the duration \<open>from(query)\<close>. When the duration
    emits, \<open>throttled\<close> becomes \<open>null\<close> and a held value is sent.
  \<^item> \<open>switchMap\<close>: for a value it calls the projection and subscribes to the promise
    it returns, passing the promise's value on. An error of that promise is an error of
    the output.
  \<^item> \<open>share\<close>: one subject for all observers; the source is subscribed when the first
    observer comes and unsubscribed when the last one goes; an error goes to every
    observer, which ends their subscriptions, and resets the operator.
  \<^item> No operator of the pipe handles an error, so an error unsubscribes the whole chain
    up to the producer, whose teardown is \<open>unsubscribe()\<close>.
  \<^item> A promise runs the reactions registered on it in the order of their registration,
    each as a job of its own.

  A promise holds what it is settled with and the reactions registered on it by
  \<open>then\<close>, in order: first the one of \<open>switchMap\<close>'s inner subscription, then the one
  of \<open>throttle\<close>'s \<open>from(query)\<close>. An execution of the query is the promise that
  \<open>runQuery()\<close> returned; \<open>owner\<close> is the identity of the connection that started it.
\<close>

datatype reaction = SwitchMapInner | ThrottleDuration

record 'r promise =
  owner :: nat
  outcome :: "error + 'r"
  reactions :: "reaction list"

text \<open>
  One connection of \<open>share\<close> to its source: the callback the producer subscribed,
  \<open>throttle\<close>'s \<open>hasValue\<close> and \<open>throttled\<close> (the promise it waits for, \<open>None\<close> for
  \<open>null\<close>), and \<open>switchMap\<close>'s \<open>innerSubscriber\<close>.
\<close>

record connection =
  conn_callback :: callback
  hasValue :: bool
  throttled :: "nat option"
  innerSubscriber :: "nat option"

text \<open>
  The client, one observable made by \<open>observable(args)\<close> and the promises of its
  executions. \<open>query\<close> is the variable of that name, \<open>observers\<close> the observers of
  \<open>share\<close>'s subject (\<open>refCount\<close> is their number), \<open>connection\<close> its connection
  (\<open>None\<close> for \<open>undefined\<close>). The last four fields only record what happened: the
  callbacks the producer created, the executions in the order they were started and in
  the order their promises were settled, and what the observers were sent (the execution,
  the observers it went to and the result or the error).
\<close>

record 'r world =
  client :: SQLiteClient
  query :: "nat option"
  observers :: "nat list"
  connection :: "connection option"
  promises :: "nat \<Rightarrow> 'r promise option"
  next_id :: nat
  created :: "callback list"
  started :: "nat list"
  completed :: "nat list"
  received :: "(nat \<times> nat list \<times> (error + 'r)) list"

text \<open>
  \<open>throttle\<close>'s \<open>send\<close>: with a value held, it passes the value on to \<open>switchMap\<close>,
  whose projection runs \<open>query = runQuery()\<close> and subscribes to the promise, and then
  \<open>startThrottle\<close> subscribes to \<open>from(query)\<close>.
\<close>

definition send :: "'r observable_args \<Rightarrow> 'r world \<Rightarrow> 'r world" where
  "send args w =
     (case connection w of
        None \<Rightarrow> w
      | Some c \<Rightarrow>
          if \<not> hasValue c then w
          else
            (let e = next_id w in
             w\<lparr>query := Some e,
               promises := (promises w)(e \<mapsto>
                 \<lparr>owner = callback_id (conn_callback c),
                  outcome = runQuery args (db (client w)),
                  reactions = [SwitchMapInner, ThrottleDuration]\<rparr>),
               next_id := Suc e,
               started := started w @ [e],
               connection :=
                 Some (c\<lparr>hasValue := False, innerSubscriber := Some e, throttled := Some e\<rparr>)\<rparr>))"

text \<open>
  \<open>throttle\<close>'s handler of a source value:
  \<open>hasValue = true; !(throttled && !throttled.closed) && send()\<close>.
\<close>

definition throttle_next :: "'r observable_args \<Rightarrow> 'r world \<Rightarrow> 'r world" where
  "throttle_next args w =
     (case connection w of
        None \<Rightarrow> w
      | Some c \<Rightarrow>
          (let w' = w\<lparr>connection := Some (c\<lparr>hasValue := True\<rparr>)\<rparr>
           in if throttled c = None then send args w' else w'))"

text \<open>
  The producer: \<open>const unsubscribe = subscribeToQuery(async () => subscriber.next(null));
  subscriber.next(null)\<close>, run by \<open>share\<close> when it connects.
\<close>

definition connect :: "'r observable_args \<Rightarrow> 'r world \<Rightarrow> 'r world" where
  "connect args w =
     (let cb = Callback (next_id w) (subscribeToQuery args) in
      throttle_next args
        (w\<lparr>client := subscribeToRowChanges cb (client w),
           next_id := Suc (next_id w),
           created := created w @ [cb],
           connection :=
             Some \<lparr>conn_callback = cb, hasValue = False, throttled = None,
                   innerSubscriber = None\<rparr>\<rparr>))"

text \<open>
  Unsubscribing the connection (\<open>resetAndUnsubscribe\<close>): the operators' state is dropped
  and the producer's teardown removes its callback from the client.
\<close>

definition teardown :: "'r world \<Rightarrow> 'r world" where
  "teardown w =
     (case connection w of
        None \<Rightarrow> w
      | Some c \<Rightarrow>
          w\<lparr>connection := None,
            client := unsubscribeFromRowChanges (conn_callback c) (client w)\<rparr>)"

text \<open>\<open>share\<close>: an observer subscribes; the first one connects the source.\<close>

definition subscribe :: "'r observable_args \<Rightarrow> nat \<Rightarrow> 'r world \<Rightarrow> 'r world" where
  "subscribe args obs w =
     (let w' = w\<lparr>observers := observers w @ [obs]\<rparr>
      in if connection w = None then connect args w' else w')"

text \<open>\<open>share\<close>: an observer unsubscribes; with \<open>refCount === 0\<close> the connection is reset.\<close>

definition unsubscribe :: "nat \<Rightarrow> 'r world \<Rightarrow> 'r world" where
  "unsubscribe obs w =
     (if obs \<in> set (observers w)
      then (let w' = w\<lparr>observers := remove1 obs (observers w)\<rparr>
            in if observers w' = [] then teardown w' else w')
      else w)"

text \<open>
  An error reaches the connection: no operator of \<open>observable\<close> handles errors, so it
  passes through to \<open>share\<close>, whose subject sends it to every observer and drops them;
  \<open>share\<close> resets (\<open>resetOnError\<close> is true by default) and the connection is
  unsubscribed.
\<close>

definition connection_error :: "nat \<Rightarrow> error \<Rightarrow> 'r world \<Rightarrow> 'r world" where
  "connection_error e err w =
     teardown (w\<lparr>received := received w @ [(e, observers w, Inl err)], observers := []\<rparr>)"

text \<open>
  The reaction of \<open>switchMap\<close>'s inner subscription to the promise of execution \<open>e\<close>:
  nothing when that subscription was unsubscribed; otherwise the result goes to the
  observers and the inner subscription completes, or the error goes to the connection.
\<close>

definition switchMap_inner :: "nat \<Rightarrow> error + 'r \<Rightarrow> 'r world \<Rightarrow> 'r world" where
  "switchMap_inner e out w =
     (case connection w of
        None \<Rightarrow> w
      | Some c \<Rightarrow>
          if innerSubscriber c \<noteq> Some e then w
          else
            (case out of
               Inr rows \<Rightarrow>
                 w\<lparr>received := received w @ [(e, observers w, Inr rows)],
                   connection := Some (c\<lparr>innerSubscriber := None\<rparr>)\<rparr>
             | Inl err \<Rightarrow> connection_error e err w))"

text \<open>
  The reaction of \<open>throttle\<close>'s subscription to \<open>from(query)\<close>: nothing when it was
  unsubscribed; otherwise \<open>endThrottling\<close> (\<open>throttled = null; send()\<close>, as
  \<open>trailing\<close> is true), or the error goes to the connection.
\<close>

definition throttle_duration :: "'r observable_args \<Rightarrow> nat \<Rightarrow> error + 'r \<Rightarrow> 'r world \<Rightarrow> 'r world" where
  "throttle_duration args e out w =
     (case connection w of
        None \<Rightarrow> w
      | Some c \<Rightarrow>
          if throttled c \<noteq> Some e then w
          else
            (case out of
               Inr rows \<Rightarrow> send args (w\<lparr>connection := Some (c\<lparr>throttled := None\<rparr>)\<rparr>)
             | Inl err \<Rightarrow> connection_error e err w))"

text \<open>The next reaction job of the promise of execution \<open>e\<close>.\<close>

definition run_reaction :: "'r observable_args \<Rightarrow> nat \<Rightarrow> 'r world \<Rightarrow> 'r world" where
  "run_reaction args e w =
     (case promises w e of
        None \<Rightarrow> w
      | Some p \<Rightarrow>
          (case reactions p of
             [] \<Rightarrow> w
           | SwitchMapInner # rs \<Rightarrow>
               switchMap_inner e (outcome p)
                 (w\<lparr>promises := (promises w)(e \<mapsto> p\<lparr>reactions := rs\<rparr>),
                    completed := completed w @ [e]\<rparr>)
           | ThrottleDuration # rs \<Rightarrow>
               throttle_duration args e (outcome p)
                 (w\<lparr>promises := (promises w)(e \<mapsto> p\<lparr>reactions := rs\<rparr>)\<rparr>)))"

text \<open>
  One call of a callback by \<open>emitTableChanges\<close>. The \<open>onChange\<close> of the connection's
  callback is \<open>async () => subscriber.next(null)\<close>; any other callback belongs to
  somebody else and does not touch the observable.
\<close>

definition call_callback :: "'r observable_args \<Rightarrow> callback \<times> DatabaseChange \<Rightarrow> 'r world \<Rightarrow> 'r world" where
  "call_callback args call w =
     (case connection w of
        None \<Rightarrow> w
      | Some c \<Rightarrow>
          if fst call = conn_callback c \<and> calls_onChange (callback_handler (fst call)) (snd call)
          then throttle_next args w else w)"

definition do_write :: "'r observable_args \<Rightarrow> RecordMap \<Rightarrow> 'r world \<Rightarrow> 'r world" where
  "do_write args recordMap w =
     (let r = writeRecordMap sqlite_exec (client w) recordMap
      in fold (call_callback args) (callback_calls r) (w\<lparr>client := client_after r\<rparr>))"

text \<open>
  What can happen to the observable, in any order: an observer subscribes or
  unsubscribes, somebody calls \<open>writeRecordMap\<close>, the next reaction job of a promise runs.
\<close>

datatype event =
    Subscribe nat
  | Unsubscribe nat
  | WriteRecordMap RecordMap
  | RunReaction nat

fun step :: "'r observable_args \<Rightarrow> event \<Rightarrow> 'r world \<Rightarrow> 'r world" where
  "step args (Subscribe obs) w = subscribe args obs w"
| "step args (Unsubscribe obs) w = unsubscribe obs w"
| "step args (WriteRecordMap recordMap) w = do_write args recordMap w"
| "step args (RunReaction e) w = run_reaction args e w"

definition run :: "'r observable_args \<Rightarrow> event list \<Rightarrow> 'r world \<Rightarrow> 'r world" where
  "run args events w = fold (step args) events w"

text \<open>
  The world right after \<open>observable(args)\<close> on a client: nobody has subscribed yet.
  Identities of new functions and promises are taken above those already in the client.
\<close>

definition fresh_id :: "callback list \<Rightarrow> nat" where
  "fresh_id cbs = fold (\<lambda>cb n. max (Suc (callback_id cb)) n) cbs 0"

definition initial_world :: "SQLiteClient \<Rightarrow> 'r world" where
  "initial_world c =
     \<lparr>client = c, query = None, observers = [], connection = None,
      promises = (\<lambda>e. None), next_id = fresh_id (changeSubscriptions c),
      created = [], started = [], completed = [], received = []\<rparr>"

text \<open>An execution is in flight while its promise has not been settled.\<close>

definition in_flight :: "'r world \<Rightarrow> nat \<Rightarrow> bool" where
  "in_flight w e =
     (case promises w e of
        None \<Rightarrow> False
      | Some p \<Rightarrow> SwitchMapInner \<in> set (reactions p))"



section \<open>Vocabulary of the claims\<close>

text \<open>
  The upserts of a batch in the order the two loops make them, and their execution one
  after the other until one fails.
\<close>

definition upserts :: "RecordMap \<Rightarrow> (RecordTable \<times> RecordValue) list" where
  "upserts recordMap =
     concat (map (\<lambda>b. map (Pair (bucket_table b)) (bucket_values b)) recordMap)"

fun apply_upserts :: "engine \<Rightarrow> (RecordTable \<times> RecordValue) list \<Rightarrow> Database \<Rightarrow> error + Database" where
  "apply_upserts exec [] d = Inr d"
| "apply_upserts exec (u # us) d =
     (case upsert exec (fst u) (snd u) d of
        Inl e \<Rightarrow> Inl e
      | Inr d' \<Rightarrow> apply_upserts exec us d')"

text \<open>The counter records of a batch, and the counter table after storing them in order.\<close>

definition counter_records :: "RecordMap \<Rightarrow> CounterRecord list" where
  "counter_records recordMap =
     concat (map (\<lambda>b. case b of CounterBucket rows \<Rightarrow> map snd rows | _ \<Rightarrow> []) recordMap)"

definition store_counters ::
  "CounterRecord list \<Rightarrow> (string \<rightharpoonup> SqlValue) \<Rightarrow> (string \<rightharpoonup> SqlValue)" where
  "store_counters rs m = fold (\<lambda>r m. m(counter_id r \<mapsto> bind_number (counter_value r))) rs m"

text \<open>
  Whether a call of \<open>writeRecordMap\<close> in a world is a staleness signal to the
  observable: the write commits and the connection's callback calls its \<open>onChange\<close>.
\<close>

definition signals :: "'r world \<Rightarrow> RecordMap \<Rightarrow> bool" where
  "signals w recordMap =
     (case connection w of
        None \<Rightarrow> False
      | Some c \<Rightarrow>
          list_ex (\<lambda>call. fst call = conn_callback c \<and>
                          calls_onChange (callback_handler (fst call)) (snd call))
            (callback_calls (writeRecordMap sqlite_exec (client w) recordMap)))"

text \<open>
  The number of staleness signals among a sequence of calls of \<open>writeRecordMap\<close>, made
  one after the other from a world on.
\<close>

fun signal_count :: "'r observable_args \<Rightarrow> 'r world \<Rightarrow> RecordMap list \<Rightarrow> nat" where
  "signal_count args w [] = 0"
| "signal_count args w (recordMap # rest) =
     (if signals w recordMap then 1 else 0) +
     signal_count args (step args (WriteRecordMap recordMap) w) rest"

text \<open>Values for the examples: an empty database, clients on it, and small batches.\<close>

definition no_rows :: Database where
  "no_rows = \<lparr>counter_table = Map.empty, thread_table = Map.empty, message_table = Map.empty\<rparr>"

definition new_client :: SQLiteClient where
  "new_client = \<lparr>db = no_rows, changeSubscriptions = []\<rparr>"

definition listening_client :: SQLiteClient where
  "listening_client = \<lparr>db = no_rows, changeSubscriptions = [Callback 0 PlainHandler]\<rparr>"

definition counter_one :: RecordMap where
  "counter_one = [CounterBucket [(''1'', CounterRecord ''1'' (Integral 1))]]"

definition counter_two :: RecordMap where
  "counter_two = [CounterBucket [(''1'', CounterRecord ''1'' (Integral 2))]]"

text \<open>A batch whose counter record has the value \<open>NaN\<close>.\<close>

definition counter_nan :: RecordMap where
  "counter_nan = [CounterBucket [(''1'', CounterRecord ''1'' NaN)]]"

text \<open>A batch that stores the counter record with id 1 under the key 2.\<close>

definition counter_moved :: RecordMap where
  "counter_moved = [CounterBucket [(''2'', CounterRecord ''1'' (Integral 3))]]"

definition thread_one :: RecordMap where
  "thread_one = [ThreadBucket [(''t'', ThreadRecord ''t'' ''subject'')]]"

text \<open>
  What the parser returns on the two texts of the specification's examples and on a
  query of one table, the exception it throws on the empty text (and a parser error on
  any other text), and a reader that finds no rows.
\<close>

definition example_parse :: parser where
  "example_parse sqlQuery =
     (if sqlQuery = ''SELECT * FROM t; SELECT * FROM t''
      then Inr [Statement [''t''], Statement [''t'']]
      else if sqlQuery = ''SELECT 1'' then Inr [Statement []]
      else if sqlQuery = ''SELECT * FROM t'' then Inr [Statement [''t'']]
      else if sqlQuery = [] then Inl (ParserError ''Unexpected end of input'')
      else Inl (ParserError ''not one of the examples''))"

definition no_result :: reader where
  "no_result d statement = Inr []"

text \<open>
  A query whose execution fails: it reads \<open>counter\<close> and \<open>thread_message\<close>, and the
  schema creates no table \<open>thread_message\<close>. \<open>missing_table\<close> is the engine's answer
  to it and \<open>broken_query\<close> what \<open>observeQuery\<close> hands to \<open>observable\<close> for it.
\<close>

definition missing_table :: reader where
  "missing_table d statement = Inl (SQLite3Error ''no such table: thread_message'')"

definition broken_query :: "(Row list) observable_args" where
  "broken_query =
     \<lparr>runQuery = (\<lambda>d. missing_table d
          \<lparr>sql_text = ''SELECT * FROM counter, thread_message'', sql_values = []\<rparr>),
      subscribeToQuery = QueryHandler [''counter'', ''thread_message'']\<rparr>"


section \<open>Invariants of the observable\<close>


definition shape :: "'r world \<Rightarrow> connection \<Rightarrow> bool" where
  "shape w c =
     ((throttled c = None \<longrightarrow> innerSubscriber c = None) \<and>
      (\<forall>e. throttled c = Some e \<longrightarrow>
        (\<exists>p. promises w e = Some p \<and> owner p = callback_id (conn_callback c) \<and>
          ((innerSubscriber c = None \<and> reactions p = [ThrottleDuration] \<and>
            (\<exists>r. outcome p = Inr r)) \<or>
           (innerSubscriber c = Some e \<and>
            reactions p = [SwitchMapInner, ThrottleDuration])))))"

definition ids_ok :: "'r observable_args \<Rightarrow> 'r world \<Rightarrow> bool" where
  "ids_ok args w =
     ((\<forall>e. next_id w \<le> e \<longrightarrow> promises w e = None) \<and>
      (\<forall>e p. promises w e = Some p \<longrightarrow> owner p < e) \<and>
      (\<forall>cb \<in> set (changeSubscriptions (client w)). callback_id cb < next_id w) \<and>
      (\<forall>cb \<in> set (created w).
          callback_id cb < next_id w \<and> callback_handler cb = subscribeToQuery args) \<and>
      (\<forall>e \<in> set (started w). e < next_id w) \<and>
      (\<forall>x \<in> set (received w). fst x < next_id w))"

definition bus_ok :: "'r world \<Rightarrow> bool" where
  "bus_ok w =
     (((connection w = None) = (observers w = [])) \<and>
      (connection w = None \<longrightarrow>
         (\<forall>cb \<in> set (created w). cb \<notin> set (changeSubscriptions (client w)))) \<and>
      (\<forall>c. connection w = Some c \<longrightarrow>
           conn_callback c \<in> set (changeSubscriptions (client w)) \<and>
           conn_callback c \<in> set (created w) \<and>
           (\<forall>cb \<in> set (created w).
               cb \<in> set (changeSubscriptions (client w)) \<longrightarrow> cb = conn_callback c)))"

definition flight_ok :: "'r world \<Rightarrow> bool" where
  "flight_ok w =
     ((\<forall>c. connection w = Some c \<longrightarrow> shape w c) \<and>
      (\<forall>c e p. connection w = Some c \<longrightarrow> promises w e = Some p \<longrightarrow>
             SwitchMapInner \<in> set (reactions p) \<longrightarrow>
             owner p = callback_id (conn_callback c) \<longrightarrow> innerSubscriber c = Some e) \<and>
      (\<forall>e e' p p'. promises w e = Some p \<longrightarrow> promises w e' = Some p' \<longrightarrow>
             SwitchMapInner \<in> set (reactions p) \<longrightarrow> SwitchMapInner \<in> set (reactions p') \<longrightarrow>
             owner p = owner p' \<longrightarrow> e = e'))"

definition order_ok :: "'r world \<Rightarrow> bool" where
  "order_ok w =
     (sorted_wrt (<) (started w) \<and>
      sorted_wrt (<) (map fst (received w)) \<and>
      subseq (map fst (received w)) (completed w) \<and>
      (\<forall>x \<in> set (received w). fst x \<in> set (started w)) \<and>
      (\<forall>c. connection w = Some c \<longrightarrow>
         (\<forall>e. innerSubscriber c = Some e \<longrightarrow>
            e \<in> set (started w) \<and> (\<forall>x \<in> set (received w). fst x < e))))"

definition inv :: "'r observable_args \<Rightarrow> 'r world \<Rightarrow> bool" where
  "inv args w = (ids_ok args w \<and> bus_ok w \<and> flight_ok w \<and> order_ok w)"



section \<open>Properties of the table-name functions\<close>

lemma hasIntersection_inner_iff:
  "hasIntersection_inner Object_is t second \<longleftrightarrow> t \<in> set second"
  by (induction second) (auto simp: Object_is_def)

lemma hasIntersection_iff:
  "hasIntersection first second Object_is \<longleftrightarrow> set first \<inter> set second \<noteq> {}"
  by (induction first) (auto simp: hasIntersection_inner_iff)


section \<open>The invariant holds in every reachable state\<close>


lemma send_None [simp]: "connection w = None \<Longrightarrow> send args w = w"
  by (simp add: send_def)

lemma send_idle [simp]: "connection w = Some c \<Longrightarrow> \<not> hasValue c \<Longrightarrow> send args w = w"
  by (simp add: send_def)

lemma inv_send_start:
  assumes i: "inv args w" and c: "connection w = Some c" and h: "hasValue c"
    and t: "throttled c = None"
  shows "inv args (send args w)"
proof -
  have ids: "ids_ok args w" and bus: "bus_ok w" and fl: "flight_ok w" and ord: "order_ok w"
    using i by (simp_all add: inv_def)
  have cid: "callback_id (conn_callback c) < next_id w"
    using ids bus c by (simp add: ids_ok_def bus_ok_def)
  have inner: "innerSubscriber c = None"
    using fl c t by (simp add: flight_ok_def shape_def)
  have noflight: "\<And>e p. promises w e = Some p \<Longrightarrow> SwitchMapInner \<in> set (reactions p)
      \<Longrightarrow> owner p \<noteq> callback_id (conn_callback c)"
    using fl c inner by (auto simp: flight_ok_def)
  have uniq: "\<And>e e' p p'. promises w e = Some p \<Longrightarrow> promises w e' = Some p' \<Longrightarrow>
      SwitchMapInner \<in> set (reactions p) \<Longrightarrow> SwitchMapInner \<in> set (reactions p') \<Longrightarrow>
      owner p = owner p' \<Longrightarrow> e = e'"
    using fl unfolding flight_ok_def by blast
  have fresh: "promises w (next_id w) = None"
    using ids by (simp add: ids_ok_def)
  have 1: "ids_ok args (send args w)"
    using ids c h cid
    apply (simp add: send_def ids_ok_def Let_def)
    apply (intro conjI allI impI ballI)
    apply (auto simp: less_Suc_eq)
    done
  have 2: "bus_ok (send args w)"
    using bus c h by (simp add: send_def bus_ok_def Let_def)
  have 3: "flight_ok (send args w)"
    unfolding flight_ok_def
  proof (intro conjI allI impI)
    fix c' assume "connection (send args w) = Some c'"
    then show "shape (send args w) c'"
      using c h by (auto simp: send_def Let_def shape_def)
  next
    fix c' e p
    assume "connection (send args w) = Some c'"
      and "promises (send args w) e = Some p" and "SwitchMapInner \<in> set (reactions p)"
      and "owner p = callback_id (conn_callback c')"
    then show "innerSubscriber c' = Some e"
      using c h by (auto simp: send_def Let_def split: if_splits dest: noflight)
  next
    fix e e' p p'
    assume "promises (send args w) e = Some p" and "promises (send args w) e' = Some p'"
      and "SwitchMapInner \<in> set (reactions p)" and "SwitchMapInner \<in> set (reactions p')"
      and "owner p = owner p'"
    then show "e = e'"
      using c h by (auto simp: send_def Let_def split: if_splits dest: noflight uniq)
  qed
  have 4: "order_ok (send args w)"
    using ord c h ids
    apply (simp add: send_def order_ok_def Let_def sorted_wrt_append ids_ok_def)
    done
  show ?thesis using 1 2 3 4 by (simp add: inv_def)
qed



lemma inv_send:
  assumes "inv args w" and "\<And>c. connection w = Some c \<Longrightarrow> throttled c = None"
  shows "inv args (send args w)"
proof (cases "connection w")
  case None
  with assms show ?thesis by simp
next
  case (Some c)
  show ?thesis
  proof (cases "hasValue c")
    case True
    with assms Some show ?thesis by (simp add: inv_send_start)
  next
    case False
    with assms Some show ?thesis by simp
  qed
qed

lemma inv_set_hasValue:
  assumes "connection w = Some c"
  shows "inv args (w\<lparr>connection := Some (c\<lparr>hasValue := b\<rparr>)\<rparr>) = inv args w"
  using assms
  by (simp add: inv_def ids_ok_def bus_ok_def flight_ok_def order_ok_def shape_def)

lemma inv_throttle_next:
  assumes "inv args w"
  shows "inv args (throttle_next args w)"
proof (cases "connection w")
  case None
  with assms show ?thesis by (simp add: throttle_next_def)
next
  case (Some c)
  have i: "inv args (w\<lparr>connection := Some (c\<lparr>hasValue := True\<rparr>)\<rparr>)"
    using assms Some by (simp add: inv_set_hasValue)
  show ?thesis
  proof (cases "throttled c")
    case None
    have "inv args (send args (w\<lparr>connection := Some (c\<lparr>hasValue := True\<rparr>)\<rparr>))"
      using i by (rule inv_send) (simp add: None)
    then show ?thesis using Some None by (simp add: throttle_next_def Let_def)
  next
    case (Some e)
    then show ?thesis using i \<open>connection w = Some c\<close> by (simp add: throttle_next_def Let_def)
  qed
qed

lemma inv_call_callback: "inv args w \<Longrightarrow> inv args (call_callback args call w)"
  by (simp add: call_callback_def inv_throttle_next split: option.splits)

lemma inv_fold_calls: "inv args w \<Longrightarrow> inv args (fold (call_callback args) calls w)"
  by (induction calls arbitrary: w) (simp_all add: inv_call_callback)

lemma client_after_subs:
  "changeSubscriptions (client_after (writeRecordMap exec c rm)) = changeSubscriptions c"
  by (simp add: writeRecordMap_def Let_def split: prod.splits option.splits)

lemma inv_client_db:
  assumes "changeSubscriptions c' = changeSubscriptions (client w)"
  shows "inv args (w\<lparr>client := c'\<rparr>) = inv args w"
  using assms
  by (simp add: inv_def ids_ok_def bus_ok_def flight_ok_def order_ok_def shape_def)

lemma inv_do_write: "inv args w \<Longrightarrow> inv args (do_write args rm w)"
  by (simp add: do_write_def Let_def inv_fold_calls inv_client_db client_after_subs)




lemma fresh_id_fold:
  "n \<le> fold (\<lambda>cb n. max (Suc (callback_id cb)) n) cbs n \<and>
   (\<forall>cb \<in> set cbs. callback_id cb < fold (\<lambda>cb n. max (Suc (callback_id cb)) n) cbs n)"
proof (induction cbs arbitrary: n)
  case Nil
  show ?case by simp
next
  case (Cons a cbs)
  have 1: "max (Suc (callback_id a)) n \<le> fold (\<lambda>cb n. max (Suc (callback_id cb)) n) cbs (max (Suc (callback_id a)) n)"
    using Cons.IH by blast
  have 2: "\<forall>cb \<in> set cbs. callback_id cb < fold (\<lambda>cb n. max (Suc (callback_id cb)) n) cbs (max (Suc (callback_id a)) n)"
    using Cons.IH by blast
  show ?case using 1 2 by auto
qed

lemma fresh_id_greater: "cb \<in> set cbs \<Longrightarrow> callback_id cb < fresh_id cbs"
  using fresh_id_fold [of 0 cbs] by (simp add: fresh_id_def)

lemma inv_initial: "inv args (initial_world c)"
  by (simp add: inv_def ids_ok_def bus_ok_def flight_ok_def order_ok_def initial_world_def
      fresh_id_greater)

lemma inv_connected:
  assumes i: "inv args w" and n: "connection w = None"
  shows "inv args
    (w\<lparr>observers := observers w @ [obs],
       client := subscribeToRowChanges (Callback (next_id w) (subscribeToQuery args)) (client w),
       next_id := Suc (next_id w),
       created := created w @ [Callback (next_id w) (subscribeToQuery args)],
       connection := Some \<lparr>conn_callback = Callback (next_id w) (subscribeToQuery args),
         hasValue = False, throttled = None, innerSubscriber = None\<rparr>\<rparr>)"
proof -
  have ids: "ids_ok args w" and bus: "bus_ok w" and fl: "flight_ok w" and ord: "order_ok w"
    using i by (simp_all add: inv_def)
  have notin: "Callback (next_id w) (subscribeToQuery args) \<notin> set (changeSubscriptions (client w))"
    using ids by (auto simp: ids_ok_def)
  have notcr: "Callback (next_id w) (subscribeToQuery args) \<notin> set (created w)"
    using ids by (auto simp: ids_ok_def)
  have subs: "changeSubscriptions (subscribeToRowChanges (Callback (next_id w) (subscribeToQuery args)) (client w))
      = changeSubscriptions (client w) @ [Callback (next_id w) (subscribeToQuery args)]"
    using notin by (simp add: subscribeToRowChanges_def Set_add_def)
  have noown: "\<And>e p. promises w e = Some p \<Longrightarrow> owner p \<noteq> next_id w"
  proof
    fix e p assume a: "promises w e = Some p" and b: "owner p = next_id w"
    have "owner p < e" using ids a by (simp add: ids_ok_def)
    moreover have "e < next_id w"
    proof (rule ccontr)
      assume "\<not> e < next_id w"
      then have "promises w e = None" using ids by (simp add: ids_ok_def)
      with a show False by simp
    qed
    ultimately show False using b by simp
  qed
  have 1: "ids_ok args (w\<lparr>observers := observers w @ [obs],
       client := subscribeToRowChanges (Callback (next_id w) (subscribeToQuery args)) (client w),
       next_id := Suc (next_id w),
       created := created w @ [Callback (next_id w) (subscribeToQuery args)],
       connection := Some \<lparr>conn_callback = Callback (next_id w) (subscribeToQuery args),
         hasValue = False, throttled = None, innerSubscriber = None\<rparr>\<rparr>)"
    using ids by (auto simp: ids_ok_def subs less_Suc_eq)
  let ?w = "w\<lparr>observers := observers w @ [obs],
       client := subscribeToRowChanges (Callback (next_id w) (subscribeToQuery args)) (client w),
       next_id := Suc (next_id w),
       created := created w @ [Callback (next_id w) (subscribeToQuery args)],
       connection := Some \<lparr>conn_callback = Callback (next_id w) (subscribeToQuery args),
         hasValue = False, throttled = None, innerSubscriber = None\<rparr>\<rparr>"
  have 2: "bus_ok ?w"
    using bus n notcr by (simp add: bus_ok_def subs)
  have 3: "flight_ok ?w"
    using fl n noown by (simp add: flight_ok_def shape_def)
  have 4: "order_ok ?w"
    using ord by (simp add: order_ok_def)
  show ?thesis using 1 2 3 4 by (simp add: inv_def)
qed

lemma inv_subscribe: "inv args w \<Longrightarrow> inv args (subscribe args obs w)"
proof (cases "connection w")
  case None
  assume "inv args w"
  then have "inv args (throttle_next args
    (w\<lparr>observers := observers w @ [obs],
       client := subscribeToRowChanges (Callback (next_id w) (subscribeToQuery args)) (client w),
       next_id := Suc (next_id w),
       created := created w @ [Callback (next_id w) (subscribeToQuery args)],
       connection := Some \<lparr>conn_callback = Callback (next_id w) (subscribeToQuery args),
         hasValue = False, throttled = None, innerSubscriber = None\<rparr>\<rparr>))"
    using None by (intro inv_throttle_next inv_connected)
  then show ?thesis using None by (simp add: subscribe_def connect_def Let_def)
next
  case (Some c)
  assume "inv args w"
  then show ?thesis using Some
    by (simp add: subscribe_def Let_def inv_def ids_ok_def bus_ok_def flight_ok_def
        order_ok_def shape_def)
qed




lemma inv_torn:
  assumes i: "inv args w" and c: "connection w = Some c"
  shows "inv args (w\<lparr>observers := [], connection := None,
           client := unsubscribeFromRowChanges (conn_callback c) (client w)\<rparr>)"
proof -
  have ids: "ids_ok args w" and bus: "bus_ok w" and fl: "flight_ok w" and ord: "order_ok w"
    using i by (simp_all add: inv_def)
  let ?w = "w\<lparr>observers := [], connection := None,
           client := unsubscribeFromRowChanges (conn_callback c) (client w)\<rparr>"
  have 1: "ids_ok args ?w"
    using ids by (simp add: ids_ok_def unsubscribeFromRowChanges_def)
  have 2: "bus_ok ?w"
    using bus c by (auto simp: bus_ok_def unsubscribeFromRowChanges_def)
  have 3: "flight_ok ?w"
    using fl by (simp add: flight_ok_def)
  have 4: "order_ok ?w"
    using ord by (simp add: order_ok_def)
  show ?thesis using 1 2 3 4 by (simp add: inv_def)
qed

lemma inv_unsubscribe: "inv args w \<Longrightarrow> inv args (unsubscribe obs w)"
proof (cases "obs \<in> set (observers w)")
  case False
  assume "inv args w"
  with False show ?thesis by (simp add: unsubscribe_def)
next
  case True
  assume i: "inv args w"
  have bus: "bus_ok w" using i by (simp add: inv_def)
  from True have ne: "observers w \<noteq> []" by auto
  then obtain c where c: "connection w = Some c" using bus by (auto simp: bus_ok_def)
  show ?thesis
  proof (cases "remove1 obs (observers w) = []")
    case True
    have "unsubscribe obs w = w\<lparr>observers := [], connection := None,
           client := unsubscribeFromRowChanges (conn_callback c) (client w)\<rparr>"
      using True \<open>obs \<in> set (observers w)\<close> c
      by (simp add: unsubscribe_def Let_def teardown_def)
    then show ?thesis using inv_torn [OF i c] by simp
  next
    case False
    have "unsubscribe obs w = w\<lparr>observers := remove1 obs (observers w)\<rparr>"
      using False \<open>obs \<in> set (observers w)\<close> by (simp add: unsubscribe_def Let_def)
    moreover have "inv args (w\<lparr>observers := remove1 obs (observers w)\<rparr>)"
      using i False c
      by (simp add: inv_def ids_ok_def bus_ok_def flight_ok_def order_ok_def shape_def)
    ultimately show ?thesis by simp
  qed
qed




lemma inv_shrink:
  assumes i: "inv args w" and p: "promises w e = Some p" and r: "reactions p = x # rs"
    and n: "\<And>c. connection w = Some c \<Longrightarrow> throttled c \<noteq> Some e"
  shows "inv args (w\<lparr>promises := (promises w)(e \<mapsto> p\<lparr>reactions := rs\<rparr>),
                     completed := completed w @ cs\<rparr>)"
proof -
  have ids: "ids_ok args w" and bus: "bus_ok w" and fl: "flight_ok w" and ord: "order_ok w"
    using i by (simp_all add: inv_def)
  let ?w = "w\<lparr>promises := (promises w)(e \<mapsto> p\<lparr>reactions := rs\<rparr>),
              completed := completed w @ cs\<rparr>"
  have 1: "ids_ok args ?w"
    using ids p by (auto simp: ids_ok_def)
  have 2: "bus_ok ?w"
    using bus by (simp add: bus_ok_def)
  have sub: "\<And>e' q. promises ?w e' = Some q \<Longrightarrow>
     \<exists>q'. promises w e' = Some q' \<and> owner q' = owner q \<and> set (reactions q) \<subseteq> set (reactions q')"
    using p r by (auto split: if_splits)
  have 3: "flight_ok ?w"
    unfolding flight_ok_def
  proof (intro conjI allI impI)
    fix c assume c: "connection ?w = Some c"
    then have c': "connection w = Some c" by simp
    have "throttled c \<noteq> Some e" using n c' by simp
    then show "shape ?w c" using fl c' by (auto simp: flight_ok_def shape_def)
  next
    fix c e' q
    assume c: "connection ?w = Some c"
      and a: "promises ?w e' = Some q" "SwitchMapInner \<in> set (reactions q)"
           "owner q = callback_id (conn_callback c)"
    from sub a obtain q' where "promises w e' = Some q'" "owner q' = owner q"
      "set (reactions q) \<subseteq> set (reactions q')" by blast
    then show "innerSubscriber c = Some e'"
      using fl c a unfolding flight_ok_def by (simp add: subset_iff)
  next
    fix e1 e2 q1 q2
    assume a: "promises ?w e1 = Some q1" "promises ?w e2 = Some q2"
       "SwitchMapInner \<in> set (reactions q1)" "SwitchMapInner \<in> set (reactions q2)"
       "owner q1 = owner q2"
    from sub a obtain q1' where 1: "promises w e1 = Some q1'" "owner q1' = owner q1"
      "set (reactions q1) \<subseteq> set (reactions q1')" by blast
    from sub a obtain q2' where 2: "promises w e2 = Some q2'" "owner q2' = owner q2"
      "set (reactions q2) \<subseteq> set (reactions q2')" by blast
    have "SwitchMapInner \<in> set (reactions q1')" "SwitchMapInner \<in> set (reactions q2')"
      using a 1 2 by auto
    moreover have "owner q1' = owner q2'" using a 1 2 by simp
    ultimately show "e1 = e2" using fl 1 2 unfolding flight_ok_def by blast
  qed
  have 4: "order_ok ?w"
    using ord by (simp add: order_ok_def subseq_rev_drop_many)
  show ?thesis using 1 2 3 4 by (simp add: inv_def)
qed




lemma inv_inner_facts:
  assumes i: "inv args w" and c: "connection w = Some c" and s: "innerSubscriber c = Some e"
  shows "throttled c = Some e"
    and "\<exists>p. promises w e = Some p \<and> owner p = callback_id (conn_callback c) \<and>
             reactions p = [SwitchMapInner, ThrottleDuration]"
    and "e < next_id w"
    and "\<forall>x \<in> set (received w). fst x < e"
    and "e \<in> set (started w)"
proof -
  have ids: "ids_ok args w" and fl: "flight_ok w" and ord: "order_ok w"
    using i by (simp_all add: inv_def)
  have sh: "shape w c" using fl c by (simp add: flight_ok_def)
  show t: "throttled c = Some e" using sh s by (auto simp: shape_def)
  show pr: "\<exists>p. promises w e = Some p \<and> owner p = callback_id (conn_callback c) \<and>
             reactions p = [SwitchMapInner, ThrottleDuration]"
    using sh s t by (auto simp: shape_def)
  show "e < next_id w"
  proof (rule ccontr)
    assume "\<not> e < next_id w"
    then have "promises w e = None" using ids by (simp add: ids_ok_def)
    with pr show False by simp
  qed
  show "\<forall>x \<in> set (received w). fst x < e" using ord c s by (simp add: order_ok_def)
  show "e \<in> set (started w)" using ord c s by (simp add: order_ok_def)
qed

lemma inv_delivered:
  assumes i: "inv args w" and c: "connection w = Some c" and s: "innerSubscriber c = Some e"
    and p: "promises w e = Some p" and o: "outcome p = Inr rows"
  shows "inv args (w\<lparr>promises := (promises w)(e \<mapsto> p\<lparr>reactions := [ThrottleDuration]\<rparr>),
                     completed := completed w @ [e],
                     received := received w @ [(e, observers w, Inr rows)],
                     connection := Some (c\<lparr>innerSubscriber := None\<rparr>)\<rparr>)"
proof -
  have ids: "ids_ok args w" and bus: "bus_ok w" and fl: "flight_ok w" and ord: "order_ok w"
    using i by (simp_all add: inv_def)
  note f = inv_inner_facts [OF i c s]
  have r: "reactions p = [SwitchMapInner, ThrottleDuration]"
    and ow: "owner p = callback_id (conn_callback c)" using f(2) p by auto
  let ?w = "w\<lparr>promises := (promises w)(e \<mapsto> p\<lparr>reactions := [ThrottleDuration]\<rparr>),
                     completed := completed w @ [e],
                     received := received w @ [(e, observers w, Inr rows)],
                     connection := Some (c\<lparr>innerSubscriber := None\<rparr>)\<rparr>"
  have 1: "ids_ok args ?w"
    using ids p f(3) by (auto simp: ids_ok_def)
  have 2: "bus_ok ?w"
    using bus c by (simp add: bus_ok_def)
  have uniq: "\<And>e' p'. promises w e' = Some p' \<Longrightarrow> SwitchMapInner \<in> set (reactions p') \<Longrightarrow>
      owner p' = callback_id (conn_callback c) \<Longrightarrow> e' = e"
    using fl c s unfolding flight_ok_def by (metis option.inject)
  have 3: "flight_ok ?w"
    unfolding flight_ok_def
  proof (intro conjI allI impI)
    fix c' assume "connection ?w = Some c'"
    then have "c' = c\<lparr>innerSubscriber := None\<rparr>" by simp
    then show "shape ?w c'" using f(1) ow o by (simp add: shape_def)
  next
    fix c' e' q
    assume "connection ?w = Some c'"
      and a: "promises ?w e' = Some q" "SwitchMapInner \<in> set (reactions q)"
           "owner q = callback_id (conn_callback c')"
    then have c': "c' = c\<lparr>innerSubscriber := None\<rparr>" by simp
    have ne: "e' \<noteq> e" using a by (auto split: if_splits)
    then have "promises w e' = Some q" using a by simp
    then have "e' = e" using a c' by (intro uniq) simp_all
    with ne show "innerSubscriber c' = Some e'" by simp
  next
    fix e1 e2 q1 q2
    assume a: "promises ?w e1 = Some q1" "promises ?w e2 = Some q2"
       "SwitchMapInner \<in> set (reactions q1)" "SwitchMapInner \<in> set (reactions q2)"
       "owner q1 = owner q2"
    have "e1 \<noteq> e" "e2 \<noteq> e" using a by (auto split: if_splits)
    then have "promises w e1 = Some q1" "promises w e2 = Some q2" using a by simp_all
    then show "e1 = e2" using fl a unfolding flight_ok_def by blast
  qed
  have 4: "order_ok ?w"
    using ord f(4) f(5) by (auto simp: order_ok_def sorted_wrt_append subseq_append_iff)
  show ?thesis using 1 2 3 4 by (simp add: inv_def)
qed




lemma inv_failed:
  assumes i: "inv args w" and c: "connection w = Some c" and s: "innerSubscriber c = Some e"
    and p: "promises w e = Some p"
  shows "inv args (w\<lparr>promises := (promises w)(e \<mapsto> p\<lparr>reactions := [ThrottleDuration]\<rparr>),
                     completed := completed w @ [e],
                     received := received w @ [(e, observers w, Inl err)],
                     observers := [],
                     connection := None,
                     client := unsubscribeFromRowChanges (conn_callback c) (client w)\<rparr>)"
proof -
  have ids: "ids_ok args w" and bus: "bus_ok w" and fl: "flight_ok w" and ord: "order_ok w"
    using i by (simp_all add: inv_def)
  note f = inv_inner_facts [OF i c s]
  have r: "reactions p = [SwitchMapInner, ThrottleDuration]"
    and ow: "owner p = callback_id (conn_callback c)" using f(2) p by auto
  let ?w = "w\<lparr>promises := (promises w)(e \<mapsto> p\<lparr>reactions := [ThrottleDuration]\<rparr>),
                     completed := completed w @ [e],
                     received := received w @ [(e, observers w, Inl err)],
                     observers := [],
                     connection := None,
                     client := unsubscribeFromRowChanges (conn_callback c) (client w)\<rparr>"
  have 1: "ids_ok args ?w"
    using ids p f(3) by (auto simp: ids_ok_def unsubscribeFromRowChanges_def)
  have 2: "bus_ok ?w"
    using bus c by (auto simp: bus_ok_def unsubscribeFromRowChanges_def)
  have 3: "flight_ok ?w"
    unfolding flight_ok_def
  proof (intro conjI allI impI)
    fix c' assume "connection ?w = Some c'"
    then show "shape ?w c'" by simp
  next
    fix c' e' q
    assume "connection ?w = Some c'"
    then show "innerSubscriber c' = Some e'" by simp
  next
    fix e1 e2 q1 q2
    assume a: "promises ?w e1 = Some q1" "promises ?w e2 = Some q2"
       "SwitchMapInner \<in> set (reactions q1)" "SwitchMapInner \<in> set (reactions q2)"
       "owner q1 = owner q2"
    have "e1 \<noteq> e" "e2 \<noteq> e" using a by (auto split: if_splits)
    then have "promises w e1 = Some q1" "promises w e2 = Some q2" using a by simp_all
    then show "e1 = e2" using fl a unfolding flight_ok_def by blast
  qed
  have 4: "order_ok ?w"
    using ord f(4) f(5) by (auto simp: order_ok_def sorted_wrt_append subseq_append_iff)
  show ?thesis using 1 2 3 4 by (simp add: inv_def)
qed

lemma inv_end_throttling:
  assumes i: "inv args w" and c: "connection w = Some c" and t: "throttled c = Some e"
    and p: "promises w e = Some p" and r: "reactions p = ThrottleDuration # rs"
  shows "inv args (w\<lparr>promises := (promises w)(e \<mapsto> p\<lparr>reactions := rs\<rparr>),
                     connection := Some (c\<lparr>throttled := None\<rparr>)\<rparr>)"
    and "\<exists>rows. outcome p = Inr rows"
proof -
  have ids: "ids_ok args w" and bus: "bus_ok w" and fl: "flight_ok w" and ord: "order_ok w"
    using i by (simp_all add: inv_def)
  have sh: "shape w c" using fl c by (simp add: flight_ok_def)
  have inner: "innerSubscriber c = None" and rs: "rs = []"
    and out: "\<exists>rows. outcome p = Inr rows"
    using sh t p r by (auto simp: shape_def)
  show "\<exists>rows. outcome p = Inr rows" by (rule out)
  let ?w = "w\<lparr>promises := (promises w)(e \<mapsto> p\<lparr>reactions := rs\<rparr>),
                     connection := Some (c\<lparr>throttled := None\<rparr>)\<rparr>"
  have 1: "ids_ok args ?w"
    using ids p by (auto simp: ids_ok_def)
  have 2: "bus_ok ?w"
    using bus c by (simp add: bus_ok_def)
  have noflight: "\<And>e' p'. promises w e' = Some p' \<Longrightarrow> SwitchMapInner \<in> set (reactions p') \<Longrightarrow>
      owner p' \<noteq> callback_id (conn_callback c)"
    using fl c inner unfolding flight_ok_def by (metis option.distinct(1))
  have 3: "flight_ok ?w"
    unfolding flight_ok_def
  proof (intro conjI allI impI)
    fix c' assume "connection ?w = Some c'"
    then have "c' = c\<lparr>throttled := None\<rparr>" by simp
    then show "shape ?w c'" using inner by (simp add: shape_def)
  next
    fix c' e' q
    assume "connection ?w = Some c'"
      and a: "promises ?w e' = Some q" "SwitchMapInner \<in> set (reactions q)"
           "owner q = callback_id (conn_callback c')"
    then have c': "c' = c\<lparr>throttled := None\<rparr>" by simp
    have ne: "e' \<noteq> e" using a rs by (auto split: if_splits)
    then have "promises w e' = Some q" using a by simp
    then have False using a c' noflight by simp
    then show "innerSubscriber c' = Some e'" ..
  next
    fix e1 e2 q1 q2
    assume a: "promises ?w e1 = Some q1" "promises ?w e2 = Some q2"
       "SwitchMapInner \<in> set (reactions q1)" "SwitchMapInner \<in> set (reactions q2)"
       "owner q1 = owner q2"
    have "e1 \<noteq> e" "e2 \<noteq> e" using a rs by (auto split: if_splits)
    then have "promises w e1 = Some q1" "promises w e2 = Some q2" using a by simp_all
    then show "e1 = e2" using fl a unfolding flight_ok_def by blast
  qed
  have 4: "order_ok ?w"
    using ord c inner by (simp add: order_ok_def)
  show "inv args ?w" using 1 2 3 4 by (simp add: inv_def)
qed

lemma inv_run_reaction: "inv args w \<Longrightarrow> inv args (run_reaction args e w)"
proof -
  assume i: "inv args w"
  show ?thesis
  proof (cases "promises w e")
    case None
    then show ?thesis using i by (simp add: run_reaction_def)
  next
    case (Some p)
    show ?thesis
    proof (cases "reactions p")
      case Nil
      then show ?thesis using i Some by (simp add: run_reaction_def)
    next
      case (Cons x rs)
      show ?thesis
      proof (cases x)
        case SwitchMapInner
        show ?thesis
        proof (cases "\<exists>c. connection w = Some c \<and> innerSubscriber c = Some e")
          case True
          then obtain c where c: "connection w = Some c" and s: "innerSubscriber c = Some e"
            by blast
          note f = inv_inner_facts [OF i c s]
          have rs: "rs = [ThrottleDuration]" using f(2) Some Cons by auto
          show ?thesis
          proof (cases "outcome p")
            case (Inr rows)
            have "run_reaction args e w =
              w\<lparr>promises := (promises w)(e \<mapsto> p\<lparr>reactions := [ThrottleDuration]\<rparr>),
                completed := completed w @ [e],
                received := received w @ [(e, observers w, Inr rows)],
                connection := Some (c\<lparr>innerSubscriber := None\<rparr>)\<rparr>"
              using Some Cons SwitchMapInner c s rs Inr
              by (simp add: run_reaction_def switchMap_inner_def)
            then show ?thesis using inv_delivered [OF i c s Some Inr] by simp
          next
            case (Inl err)
            have "run_reaction args e w =
              w\<lparr>promises := (promises w)(e \<mapsto> p\<lparr>reactions := [ThrottleDuration]\<rparr>),
                completed := completed w @ [e],
                received := received w @ [(e, observers w, Inl err)],
                observers := [],
                connection := None,
                client := unsubscribeFromRowChanges (conn_callback c) (client w)\<rparr>"
              using Some Cons SwitchMapInner c s rs Inl
              by (simp add: run_reaction_def switchMap_inner_def connection_error_def teardown_def)
            then show ?thesis using inv_failed [OF i c s Some] by simp
          qed
        next
          case False
          have eq: "run_reaction args e w =
             w\<lparr>promises := (promises w)(e \<mapsto> p\<lparr>reactions := rs\<rparr>),
               completed := completed w @ [e]\<rparr>"
            using Some Cons SwitchMapInner False
            by (auto simp: run_reaction_def switchMap_inner_def split: option.splits)
          have n: "\<And>c. connection w = Some c \<Longrightarrow> throttled c \<noteq> Some e"
          proof
            fix c assume c: "connection w = Some c" and t: "throttled c = Some e"
            have "shape w c" using i c by (simp add: inv_def flight_ok_def)
            then show False using t Some Cons SwitchMapInner False c by (auto simp: shape_def)
          qed
          show ?thesis unfolding eq using i Some Cons n by (rule inv_shrink)
        qed
      next
        case ThrottleDuration
        show ?thesis
        proof (cases "\<exists>c. connection w = Some c \<and> throttled c = Some e")
          case True
          then obtain c where c: "connection w = Some c" and t: "throttled c = Some e"
            by blast
          have r: "reactions p = ThrottleDuration # rs" using Cons ThrottleDuration by simp
          note f = inv_end_throttling [OF i c t Some r]
          from f(2) obtain rows where o: "outcome p = Inr rows" by blast
          have "run_reaction args e w =
             send args (w\<lparr>promises := (promises w)(e \<mapsto> p\<lparr>reactions := rs\<rparr>),
                     connection := Some (c\<lparr>throttled := None\<rparr>)\<rparr>)"
            using Some r c t o by (simp add: run_reaction_def throttle_duration_def)
          moreover have "inv args (send args (w\<lparr>promises := (promises w)(e \<mapsto> p\<lparr>reactions := rs\<rparr>),
                     connection := Some (c\<lparr>throttled := None\<rparr>)\<rparr>))"
            using f(1) by (rule inv_send) simp
          ultimately show ?thesis by simp
        next
          case False
          have eq: "run_reaction args e w =
             w\<lparr>promises := (promises w)(e \<mapsto> p\<lparr>reactions := rs\<rparr>),
               completed := completed w @ []\<rparr>"
            using Some Cons ThrottleDuration False
            by (auto simp: run_reaction_def throttle_duration_def split: option.splits)
          have n: "\<And>c. connection w = Some c \<Longrightarrow> throttled c \<noteq> Some e"
            using False by blast
          show ?thesis unfolding eq using i Some Cons n by (rule inv_shrink)
        qed
      qed
    qed
  qed
qed

lemma inv_step: "inv args w \<Longrightarrow> inv args (step args ev w)"
  by (cases ev) (simp_all add: inv_subscribe inv_unsubscribe inv_do_write inv_run_reaction)

lemma inv_run_from: "inv args w \<Longrightarrow> inv args (run args evs w)"
  unfolding run_def by (induction evs arbitrary: w) (simp_all add: inv_step)

lemma inv_run: "inv args (run args evs (initial_world c))"
  by (simp add: inv_run_from inv_initial)




section \<open>Evaluating the model on examples\<close>

lemmas world_defs = run_def subscribe_def unsubscribe_def connect_def throttle_next_def send_def
  teardown_def connection_error_def switchMap_inner_def throttle_duration_def run_reaction_def
  call_callback_def do_write_def initial_world_def fresh_id_def writeRecordMap_def
  transaction_def emitTableChanges_def subscribeToRowChanges_def unsubscribeFromRowChanges_def
  Set_add_def upsert_def upsertRecordSql_def sqlite_exec_def sql_tag_def counter_upsert_text_def
  isInt32_def Object_keys_def js_in_def
  Object_prototype_def Object_is_def observeRecord_def liveRecord_def
  no_rows_def new_client_def listening_client_def counter_one_def counter_two_def thread_one_def
  counter_moved_def broken_query_def missing_table_def Let_def


section \<open>Writing a batch\<close>

lemma upsert_rows_apply:
  "upsert_rows exec table rows d = apply_upserts exec (map (Pair table) rows) d"
  by (induction rows arbitrary: d) (auto split: sum.splits)

lemma apply_upserts_append:
  "apply_upserts exec (us @ vs) d =
     (case apply_upserts exec us d of
        Inl e \<Rightarrow> Inl e
      | Inr d' \<Rightarrow> apply_upserts exec vs d')"
  by (induction us arbitrary: d) (auto split: sum.splits)

lemma upsert_entries_apply:
  "upsert_entries exec recordMap d = apply_upserts exec (upserts recordMap) d"
  by (induction recordMap arbitrary: d)
     (auto simp: upserts_def upsert_rows_apply apply_upserts_append split: sum.splits)

lemma registered_bucket:
  "upsertRecordMap (bucket_table b) \<noteq> None \<Longrightarrow> \<exists>rows. b = CounterBucket rows"
  by (cases b) simp_all

lemma upsert_counter:
  "upsert sqlite_exec counter (CounterValue r) d =
     (if counter_value r = NaN then Inl not_null_failed
      else Inr (d\<lparr>counter_table :=
             (counter_table d)(counter_id r \<mapsto> bind_number (counter_value r))\<rparr>))"
  by (cases "counter_value r")
     (simp_all add: upsert_def upsertRecordSql_def sqlite_exec_def sql_tag_def
        counter_upsert_text_def)

lemma apply_upserts_counter:
  "apply_upserts sqlite_exec (map (Pair counter \<circ> CounterValue) rs) d =
     (if NaN \<in> counter_value ` set rs then Inl not_null_failed
      else Inr (d\<lparr>counter_table := store_counters rs (counter_table d)\<rparr>))"
  by (induction rs arbitrary: d) (simp_all add: store_counters_def upsert_counter)


lemma upserts_registered:
  "\<forall>b \<in> set recordMap. upsertRecordMap (bucket_table b) \<noteq> None \<Longrightarrow>
   upserts recordMap = map (Pair counter \<circ> CounterValue) (counter_records recordMap)"
proof (induction recordMap)
  case Nil
  show ?case by (simp add: upserts_def counter_records_def)
next
  case (Cons b bs)
  then obtain rows where b: "b = CounterBucket rows" using registered_bucket by auto
  have "upserts bs = map (Pair counter \<circ> CounterValue) (counter_records bs)"
    using Cons by simp
  then show ?case using b by (simp add: upserts_def counter_records_def)
qed

lemma store_counters_map_of:
  "store_counters rs m =
     m ++ map_of (rev (map (\<lambda>r. (counter_id r, bind_number (counter_value r))) rs))"
proof (induction rs arbitrary: m)
  case Nil
  show ?case by (simp add: store_counters_def)
next
  case (Cons r rs)
  let ?kv = "\<lambda>r. (counter_id r, bind_number (counter_value r))"
  have "store_counters (r # rs) m =
      store_counters rs (m(counter_id r \<mapsto> bind_number (counter_value r)))"
    by (simp add: store_counters_def)
  also have "\<dots> = m(counter_id r \<mapsto> bind_number (counter_value r)) ++ map_of (rev (map ?kv rs))"
    by (rule Cons.IH)
  also have "\<dots> = m ++ map_of (rev (map ?kv (r # rs)))"
    by (simp add: map_add_def fun_eq_iff split: option.splits)
  finally show ?case .
qed

lemma store_counters_twice:
  "store_counters rs (store_counters rs m) = store_counters rs m"
  by (simp add: store_counters_map_of map_add_def fun_eq_iff split: option.splits)

lemma upsert_entries_registered:
  assumes "\<forall>b \<in> set recordMap. upsertRecordMap (bucket_table b) \<noteq> None"
  shows "upsert_entries sqlite_exec recordMap d =
     (if NaN \<in> counter_value ` set (counter_records recordMap) then Inl not_null_failed
      else Inr (d\<lparr>counter_table :=
             store_counters (counter_records recordMap) (counter_table d)\<rparr>))"
  using assms
  by (simp add: upsert_entries_apply upserts_registered apply_upserts_counter)

text \<open>
  Claim C3. \<open>writeRecordMap\<close> is atomic. Whatever the engine does on a statement: if
  some upsert of the batch fails with an exception \<open>e\<close> (the upserts \<open>before\<close> it having
  succeeded), then the promise of \<open>writeRecordMap\<close> is rejected with that same \<open>e\<close>,
  the client is as it was before the call, database included, \<open>emitTableChanges\<close> is not
  called and so no callback is called.
\<close>

theorem writeRecordMap_atomic:
  assumes "upserts recordMap = before @ (table, row) # rest"
    and "apply_upserts exec before (db cl) = Inr d"
    and "upsert exec table row d = Inl e"
  shows "rejected (writeRecordMap exec cl recordMap) = Some e \<and>
         client_after (writeRecordMap exec cl recordMap) = cl \<and>
         emitted_changes (writeRecordMap exec cl recordMap) = [] \<and>
         callback_calls (writeRecordMap exec cl recordMap) = []"
proof -
  have "upsert_entries exec recordMap (db cl) = Inl e"
    using assms by (simp add: upsert_entries_apply apply_upserts_append)
  then show ?thesis
    by (simp add: writeRecordMap_def transaction_def)
qed

text \<open>
  An instance: a batch of one counter record, which the engine stores, and one thread
  record, for which there is no rule.
\<close>

theorem writeRecordMap_atomic_witness:
  "rejected (writeRecordMap sqlite_exec listening_client (counter_one @ thread_one)) =
     Some (TypeError ''upsertRecordMap[table] is not a function'') \<and>
   client_after (writeRecordMap sqlite_exec listening_client (counter_one @ thread_one)) =
     listening_client \<and>
   emitted_changes (writeRecordMap sqlite_exec listening_client (counter_one @ thread_one)) = [] \<and>
   callback_calls (writeRecordMap sqlite_exec listening_client (counter_one @ thread_one)) = []"
  using writeRecordMap_atomic [of "counter_one @ thread_one"
      "[(counter, CounterValue (CounterRecord ''1'' (Integral 1)))]"
      thread "ThreadValue (ThreadRecord ''t'' ''subject'')" "[]" sqlite_exec listening_client
      "no_rows\<lparr>counter_table := [''1'' \<mapsto> SqlInteger 1]\<rparr>"
      "TypeError ''upsertRecordMap[table] is not a function''"]
  by (simp add: upserts_def counter_one_def thread_one_def listening_client_def no_rows_def
      upsert_def upsertRecordSql_def sqlite_exec_def sql_tag_def counter_upsert_text_def
      isInt32_def)

text \<open>
  Claim C6. For a batch whose tables all have a rule, a second \<open>writeRecordMap\<close> of the
  same batch ends as the first one did and leaves the client, database included, as the
  first call left it; the two calls emit the same changes to the same callbacks. When no
  record of the batch has the value \<open>NaN\<close>, neither call is rejected and each emits one
  change, whose \<open>changes\<close> is the batch. When some record has the value \<open>NaN\<close>, both
  calls are rejected with the engine's NOT NULL failure, the client stays as it was and
  no change is emitted.
\<close>

theorem writeRecordMap_twice:
  assumes "\<forall>b \<in> set recordMap. upsertRecordMap (bucket_table b) \<noteq> None"
  shows "let r1 = writeRecordMap sqlite_exec cl recordMap;
             r2 = writeRecordMap sqlite_exec (client_after r1) recordMap
         in rejected r2 = rejected r1 \<and>
            client_after r2 = client_after r1 \<and>
            emitted_changes r2 = emitted_changes r1 \<and>
            callback_calls r2 = callback_calls r1 \<and>
            (NaN \<notin> counter_value ` set (counter_records recordMap) \<longrightarrow>
               rejected r1 = None \<and>
               emitted_changes r1 =
                 [\<lparr>tableNames = Object_keys recordMap, changes = recordMap\<rparr>]) \<and>
            (NaN \<in> counter_value ` set (counter_records recordMap) \<longrightarrow>
               rejected r1 = Some not_null_failed \<and>
               client_after r1 = cl \<and>
               emitted_changes r1 = [])"
proof (cases "NaN \<in> counter_value ` set (counter_records recordMap)")
  case True
  then show ?thesis
    by (simp add: writeRecordMap_def transaction_def Let_def
        upsert_entries_registered [OF assms])
next
  case False
  then show ?thesis
    by (simp add: writeRecordMap_def transaction_def Let_def emitTableChanges_def
        upsert_entries_registered [OF assms] store_counters_twice)
qed

text \<open>
  Two instances, written twice to a client with a listener: the counter record with id 1
  and value 1, and the same record with the value \<open>NaN\<close> written to a database that
  holds the former.
\<close>

theorem writeRecordMap_twice_witness:
  "rejected (writeRecordMap sqlite_exec listening_client counter_one) = None \<and>
   client_after (writeRecordMap sqlite_exec
      (client_after (writeRecordMap sqlite_exec listening_client counter_one)) counter_one) =
     client_after (writeRecordMap sqlite_exec listening_client counter_one) \<and>
   emitted_changes (writeRecordMap sqlite_exec listening_client counter_one) =
     [\<lparr>tableNames = [''counter''], changes = counter_one\<rparr>] \<and>
   callback_calls (writeRecordMap sqlite_exec
      (client_after (writeRecordMap sqlite_exec listening_client counter_one)) counter_one) =
     [(Callback 0 PlainHandler, \<lparr>tableNames = [''counter''], changes = counter_one\<rparr>)] \<and>
   client_after (writeRecordMap sqlite_exec
      (client_after (writeRecordMap sqlite_exec listening_client counter_one)) counter_nan) =
     client_after (writeRecordMap sqlite_exec listening_client counter_one)"
  using writeRecordMap_twice [of counter_one listening_client]
    writeRecordMap_twice [of counter_nan
      "client_after (writeRecordMap sqlite_exec listening_client counter_one)"]
  by (simp add: Let_def counter_one_def counter_nan_def counter_records_def writeRecordMap_def
      transaction_def upsert_def upsertRecordSql_def sqlite_exec_def sql_tag_def
      counter_upsert_text_def isInt32_def emitTableChanges_def listening_client_def
      Object_keys_def)

text \<open>
  Claim C6 as stated fails on a counter record whose value is \<open>NaN\<close>: all the tables
  of the batch have a rule, yet both calls are rejected, the database holds no row and no
  change is emitted.
\<close>

theorem writeRecordMap_twice_rejected:
  "map bucket_table counter_nan = [counter] \<and> upsertRecordMap counter \<noteq> None \<and>
   rejected (writeRecordMap sqlite_exec listening_client counter_nan) = Some not_null_failed \<and>
   emitted_changes (writeRecordMap sqlite_exec listening_client counter_nan) = [] \<and>
   client_after (writeRecordMap sqlite_exec listening_client counter_nan) = listening_client \<and>
   rejected (writeRecordMap sqlite_exec
      (client_after (writeRecordMap sqlite_exec listening_client counter_nan)) counter_nan) =
     Some not_null_failed \<and>
   emitted_changes (writeRecordMap sqlite_exec
      (client_after (writeRecordMap sqlite_exec listening_client counter_nan)) counter_nan) = []"
  by (simp add: counter_nan_def writeRecordMap_def transaction_def upsert_def
      upsertRecordSql_def sqlite_exec_def sql_tag_def counter_upsert_text_def
      listening_client_def)


section \<open>The upsert rules\<close>





section \<open>Registering a query\<close>

lemma set_fold_Set_add:
  "set (fold Set_add xs ys) = set xs \<union> set ys"
  by (induction xs arbitrary: ys) (auto simp: Set_add_def)

lemma fold_Set_add_empty:
  "fold Set_add xs [] = [] \<longleftrightarrow> xs = []"
  using set_fold_Set_add [of xs "[]"] by (metis set_empty sup_bot.right_neutral fold_simps(1))

text \<open>
  Claim C4, as amended. \<open>parseTestTableNames\<close>, \<open>observeQuery\<close> and \<open>liveQuery\<close>
  on the text of a query:
  \<^item> when the parser throws, all three throw the parser's exception;
  \<^item> when the text parses to a number of statements other than one, all three throw
    \<open>Must receive exactly one SQL statement\<close> (the specification's
    \<open>MultipleStatements\<close>);
  \<^item> when it parses to one statement without a table reference, \<open>parseTestTableNames\<close>
    returns the empty list, and \<open>observeQuery\<close> and \<open>liveQuery\<close> throw
    \<open>Could not calculate selected table names\<close> (the specification's
    \<open>NoTablesFound\<close>);
  \<^item> when it parses to one statement with table references, none of them throws.

  An exception is the result of \<open>observeQuery\<close> or \<open>liveQuery\<close> itself: the caller
  gets no observable and no \<open>subscribe\<close> function, and neither function reaches
  \<open>subscribeToRowChanges\<close>.
\<close>

theorem analysis_errors:
  "(\<forall>e. parse (sql_text statement) = Inl e \<longrightarrow>
      parseTestTableNames parse (sql_text statement) = Inl e \<and>
      observeQuery parse exec statement = Inl e \<and>
      liveQuery parse exec statement = Inl e) \<and>
   (\<forall>statements. parse (sql_text statement) = Inr statements \<longrightarrow> length statements \<noteq> 1 \<longrightarrow>
      parseTestTableNames parse (sql_text statement) =
        Inl (Error ''Must receive exactly one SQL statement'') \<and>
      observeQuery parse exec statement =
        Inl (Error ''Must receive exactly one SQL statement'') \<and>
      liveQuery parse exec statement =
        Inl (Error ''Must receive exactly one SQL statement'')) \<and>
   (\<forall>s. parse (sql_text statement) = Inr [s] \<longrightarrow> tableRefs s = [] \<longrightarrow>
      parseTestTableNames parse (sql_text statement) = Inr [] \<and>
      observeQuery parse exec statement =
        Inl (Error ''Could not calculate selected table names'') \<and>
      liveQuery parse exec statement =
        Inl (Error ''Could not calculate selected table names'')) \<and>
   (\<forall>s. parse (sql_text statement) = Inr [s] \<longrightarrow> tableRefs s \<noteq> [] \<longrightarrow>
      parseTestTableNames parse (sql_text statement) = Inr (fold Set_add (tableRefs s) []) \<and>
      observeQuery parse exec statement =
        Inr \<lparr>runQuery = (\<lambda>d. exec d statement),
             subscribeToQuery = QueryHandler (fold Set_add (tableRefs s) [])\<rparr> \<and>
      liveQuery parse exec statement =
        Inr \<lparr>runQuery = (\<lambda>d. exec d statement),
             subscribeToQuery = QueryHandler (fold Set_add (tableRefs s) [])\<rparr>)"
  by (simp add: parseTestTableNames_def observeQuery_def liveQuery_def fold_Set_add_empty)

text \<open>
  The two examples of the specification, the empty text and a query of one table.
\<close>

theorem analysis_errors_witness:
  "observeQuery example_parse no_result
     \<lparr>sql_text = ''SELECT * FROM t; SELECT * FROM t'', sql_values = []\<rparr> =
     Inl (Error ''Must receive exactly one SQL statement'') \<and>
   observeQuery example_parse no_result \<lparr>sql_text = ''SELECT 1'', sql_values = []\<rparr> =
     Inl (Error ''Could not calculate selected table names'') \<and>
   liveQuery example_parse no_result \<lparr>sql_text = [], sql_values = []\<rparr> =
     Inl (ParserError ''Unexpected end of input'') \<and>
   map_sum id subscribeToQuery
     (observeQuery example_parse no_result \<lparr>sql_text = ''SELECT * FROM t'', sql_values = []\<rparr>) =
     Inr (QueryHandler [''t''])"
  using analysis_errors [of example_parse
      "\<lparr>sql_text = ''SELECT * FROM t; SELECT * FROM t'', sql_values = []\<rparr>" no_result]
    analysis_errors [of example_parse "\<lparr>sql_text = ''SELECT 1'', sql_values = []\<rparr>" no_result]
    analysis_errors [of example_parse "\<lparr>sql_text = [], sql_values = []\<rparr>" no_result]
    analysis_errors [of example_parse "\<lparr>sql_text = ''SELECT * FROM t'', sql_values = []\<rparr>"
      no_result]
  by (simp add: example_parse_def Set_add_def)

text \<open>
  Claim C4 as stated fails in two places. On a statement without a table reference the
  extraction step \<open>parseTestTableNames\<close> does not fail: it returns the empty list. On
  the empty text, which holds no statement, the exception is the parser's, not
  \<open>Must receive exactly one SQL statement\<close>.
\<close>

theorem extraction_without_tables:
  "parseTestTableNames example_parse ''SELECT 1'' = Inr [] \<and>
   parseTestTableNames example_parse [] = Inl (ParserError ''Unexpected end of input'') \<and>
   observeQuery example_parse no_result \<lparr>sql_text = [], sql_values = []\<rparr> =
     Inl (ParserError ''Unexpected end of input'')"
  by (simp add: parseTestTableNames_def observeQuery_def example_parse_def)


section \<open>Changes that do not concern a query\<close>

lemma conn_handler:
  assumes "inv args w" and "connection w = Some c"
  shows "callback_handler (conn_callback c) = subscribeToQuery args"
  using assms by (simp add: inv_def bus_ok_def ids_ok_def)

lemma fold_calls_silent:
  assumes "\<And>c call. connection w = Some c \<Longrightarrow> call \<in> set calls \<Longrightarrow>
             \<not> calls_onChange (callback_handler (conn_callback c)) (snd call)"
  shows "fold (call_callback args) calls w = w"
  using assms
proof (induction calls)
  case Nil
  show ?case by simp
next
  case (Cons call calls)
  have "call_callback args call w = w"
    using Cons.prems [of _ call] by (auto simp: call_callback_def split: option.splits)
  then show ?case using Cons by simp
qed

lemma callback_calls_change:
  "call \<in> set (callback_calls (writeRecordMap exec c rm)) \<Longrightarrow>
   snd call = \<lparr>tableNames = Object_keys rm, changes = rm\<rparr>"
  by (auto simp: writeRecordMap_def emitTableChanges_def Let_def split: prod.splits option.splits)

lemma do_write_silent:
  assumes "\<And>c. connection w = Some c \<Longrightarrow>
     \<not> calls_onChange (callback_handler (conn_callback c))
         \<lparr>tableNames = Object_keys rm, changes = rm\<rparr>"
  shows "do_write args rm w = w\<lparr>client := client_after (writeRecordMap sqlite_exec (client w) rm)\<rparr>"
  unfolding do_write_def Let_def
  by (rule fold_calls_silent) (use assms in \<open>auto dest: callback_calls_change\<close>)

text \<open>
  Claim C5. Let \<open>affectedTableNames\<close> be the tables of a live query. A change whose
  \<open>tableNames\<close> has none of them does not make the query's callback call
  \<open>onChange\<close>. And in any state that the observable of such a query can reach, a
  \<open>writeRecordMap\<close> of a batch with none of these tables starts no execution: the
  executions started, the promises, the connection and what the observers received are
  as before.
\<close>

theorem unrelated_tables_never_signal:
  assumes "subscribeToQuery args = QueryHandler affectedTableNames"
  shows "(set affectedTableNames \<inter> set (tableNames change) = {} \<longrightarrow>
            \<not> calls_onChange (QueryHandler affectedTableNames) change) \<and>
         (set affectedTableNames \<inter> set (Object_keys recordMap) = {} \<longrightarrow>
            (let w = run args events (initial_world cl);
                 w' = step args (WriteRecordMap recordMap) w
             in started w' = started w \<and> promises w' = promises w \<and>
                connection w' = connection w \<and> received w' = received w))"
proof (intro conjI impI)
  assume "set affectedTableNames \<inter> set (tableNames change) = {}"
  then show "\<not> calls_onChange (QueryHandler affectedTableNames) change"
    by (simp add: hasIntersection_iff)
next
  assume d: "set affectedTableNames \<inter> set (Object_keys recordMap) = {}"
  let ?w = "run args events (initial_world cl)"
  have i: "inv args ?w" by (rule inv_run)
  have "do_write args recordMap ?w =
        ?w\<lparr>client := client_after (writeRecordMap sqlite_exec (client ?w) recordMap)\<rparr>"
  proof (rule do_write_silent)
    fix cn assume "connection ?w = Some cn"
    then have "callback_handler (conn_callback cn) = QueryHandler affectedTableNames"
      using conn_handler [OF i] assms by simp
    then show "\<not> calls_onChange (callback_handler (conn_callback cn))
         \<lparr>tableNames = Object_keys recordMap, changes = recordMap\<rparr>"
      using d by (simp add: hasIntersection_iff)
  qed
  then show "let w = run args events (initial_world cl);
                 w' = step args (WriteRecordMap recordMap) w
             in started w' = started w \<and> promises w' = promises w \<and>
                connection w' = connection w \<and> received w' = received w"
    by (simp add: Let_def)
qed

text \<open>An instance: a query on \<open>thread\<close> with one observer, and a write to \<open>counter\<close>.\<close>

theorem unrelated_tables_never_signal_witness:
  "\<not> calls_onChange (QueryHandler [''thread''])
       \<lparr>tableNames = [''counter''], changes = counter_one\<rparr> \<and>
   started (run \<lparr>runQuery = (\<lambda>d. no_result d \<lparr>sql_text = ''SELECT * FROM thread'', sql_values = []\<rparr>),
                 subscribeToQuery = QueryHandler [''thread'']\<rparr>
              [Subscribe 0, WriteRecordMap counter_one] (initial_world new_client)) = [1]"
  using unrelated_tables_never_signal
    [of "\<lparr>runQuery = (\<lambda>d. no_result d \<lparr>sql_text = ''SELECT * FROM thread'', sql_values = []\<rparr>),
         subscribeToQuery = QueryHandler [''thread'']\<rparr>" "[''thread'']"
       "\<lparr>tableNames = [''counter''], changes = counter_one\<rparr>" counter_one
       "[Subscribe 0]" new_client]
  by (simp add: world_defs)


section \<open>The callback of a live record\<close>

lemma table_name_inj: "table_name t = table_name t' \<longleftrightarrow> t = t'"
  by (cases t; cases t') simp_all

lemma table_name_not_inherited: "table_name table \<notin> set Object_prototype"
  by (cases table) (simp_all add: Object_prototype_def)

lemma table_name_own_key:
  "table_name table \<in> set (Object_keys recordMap) \<longleftrightarrow> get_bucket recordMap table \<noteq> None"
  by (induction recordMap) (auto simp: Object_keys_def table_name_inj)

text \<open>
  For a record id that is not the name of a property of \<open>Object.prototype\<close>, the
  callback calls \<open>onChange\<close> exactly when the change has a bucket for the table and the
  bucket has the id as a key.
\<close>

lemma record_callback_own_key:
  assumes "i \<notin> set Object_prototype"
  shows "calls_onChange (RecordHandler table i) change \<longleftrightarrow>
         (\<exists>b. get_bucket (changes change) table = Some b \<and> i \<in> set (bucket_keys b))"
proof (cases "get_bucket (changes change) table")
  case None
  then have "table_name table \<notin> set (Object_keys (changes change))"
    by (simp add: table_name_own_key)
  then show ?thesis using None by (simp add: js_in_def table_name_not_inherited)
next
  case (Some b)
  then have "table_name table \<in> set (Object_keys (changes change))"
    by (simp add: table_name_own_key)
  then show ?thesis using Some assms by (simp add: js_in_def)
qed

text \<open>An instance: the ids 1 and 2 against a change of the counter record 1.\<close>

lemma record_callback_own_key_example:
  "''2'' \<notin> set Object_prototype \<and>
   \<not> calls_onChange (RecordHandler counter ''2'')
       \<lparr>tableNames = [''counter''], changes = counter_one\<rparr> \<and>
   calls_onChange (RecordHandler counter ''1'')
       \<lparr>tableNames = [''counter''], changes = counter_one\<rparr>"
  using record_callback_own_key [of "''2''" counter
      "\<lparr>tableNames = [''counter''], changes = counter_one\<rparr>"]
    record_callback_own_key [of "''1''" counter
      "\<lparr>tableNames = [''counter''], changes = counter_one\<rparr>"]
  by (simp add: Object_prototype_def counter_one_def)

text \<open>
  Claim C10. The callback of \<open>liveRecord\<close> and \<open>observeRecord\<close> tests
  \<open>id in changes[table]\<close>, which also holds for a name inherited from
  \<open>Object.prototype\<close>. For the record id \<open>constructor\<close>, a change of the same table
  whose bucket only holds the id \<open>1\<close> makes the callback call \<open>onChange\<close>, and the
  observable of that record, idle after its first execution, starts a second one.
\<close>

theorem record_callback_inherited_key:
  "''constructor'' \<notin> set (bucket_keys (CounterBucket [(''1'', CounterRecord ''1'' (Integral 1))])) \<and>
   calls_onChange (subscribeToQuery (liveRecord counter ''constructor''))
     \<lparr>tableNames = [''counter''], changes = counter_one\<rparr> \<and>
   calls_onChange (subscribeToQuery (observeRecord counter ''constructor''))
     \<lparr>tableNames = [''counter''], changes = counter_one\<rparr> \<and>
   started (run (observeRecord counter ''constructor'')
     [Subscribe 0, RunReaction 1, RunReaction 1] (initial_world new_client)) = [1] \<and>
   started (run (observeRecord counter ''constructor'')
     [Subscribe 0, RunReaction 1, RunReaction 1, WriteRecordMap counter_one]
     (initial_world new_client)) = [1, 2]"
  by (simp add: world_defs)


section \<open>Teardown\<close>

lemma fold_calls_disconnected:
  "connection w = None \<Longrightarrow> fold (call_callback args) calls w = w"
  by (rule fold_calls_silent) simp

lemma do_write_disconnected:
  "connection w = None \<Longrightarrow>
   do_write args rm w = w\<lparr>client := client_after (writeRecordMap sqlite_exec (client w) rm)\<rparr>"
  by (rule do_write_silent) simp

lemma callback_calls_subscribed:
  "call \<in> set (callback_calls (writeRecordMap exec c rm)) \<Longrightarrow>
   fst call \<in> set (changeSubscriptions c)"
  by (auto simp: writeRecordMap_def emitTableChanges_def Let_def split: prod.splits option.splits)

text \<open>
  Claim C8. In any state that an observable can reach: when its only observer
  unsubscribes, the callback of the connection, which was subscribed to the client, is
  no longer subscribed, and no callback the observable ever created is. The connection is
  gone. A \<open>writeRecordMap\<close> afterwards calls no callback of the observable and starts
  no execution.
\<close>

theorem last_observer_unsubscribes:
  assumes "w = run args events (initial_world cl)" and "observers w = [obs]"
  shows "let w' = step args (Unsubscribe obs) w in
           (\<exists>c. connection w = Some c \<and>
                conn_callback c \<in> set (changeSubscriptions (client w)) \<and>
                conn_callback c \<notin> set (changeSubscriptions (client w'))) \<and>
           observers w' = [] \<and> connection w' = None \<and>
           (\<forall>cb \<in> set (created w'). cb \<notin> set (changeSubscriptions (client w'))) \<and>
           (\<forall>call \<in> set (callback_calls (writeRecordMap sqlite_exec (client w') recordMap)).
               fst call \<notin> set (created w')) \<and>
           started (step args (WriteRecordMap recordMap) w') = started w' \<and>
           promises (step args (WriteRecordMap recordMap) w') = promises w'"
proof -
  have i: "inv args w" using assms(1) by (simp add: inv_run)
  then have bus: "bus_ok w" by (simp add: inv_def)
  obtain c where c: "connection w = Some c"
    using bus assms(2) by (auto simp: bus_ok_def)
  have sub: "conn_callback c \<in> set (changeSubscriptions (client w))"
    using bus c by (simp add: bus_ok_def)
  let ?w' = "step args (Unsubscribe obs) w"
  have eq: "?w' = w\<lparr>observers := [], connection := None,
           client := unsubscribeFromRowChanges (conn_callback c) (client w)\<rparr>"
    using assms(2) c by (simp add: unsubscribe_def teardown_def)
  have i': "inv args ?w'" using i by (rule inv_step)
  then have bus': "bus_ok ?w'" by (simp add: inv_def)
  have n: "connection ?w' = None" using eq by simp
  have cr: "\<forall>cb \<in> set (created ?w'). cb \<notin> set (changeSubscriptions (client ?w'))"
    using bus' n by (simp add: bus_ok_def)
  have gone: "conn_callback c \<notin> set (changeSubscriptions (client ?w'))"
    using eq by (simp add: unsubscribeFromRowChanges_def)
  have calls: "\<forall>call \<in> set (callback_calls (writeRecordMap sqlite_exec (client ?w') recordMap)).
      fst call \<notin> set (created ?w')"
    using cr callback_calls_subscribed by blast
  have wr: "step args (WriteRecordMap recordMap) ?w' =
      ?w'\<lparr>client := client_after (writeRecordMap sqlite_exec (client ?w') recordMap)\<rparr>"
    using n by (simp add: do_write_disconnected)
  have o: "observers ?w' = []" using eq by simp
  show ?thesis
    unfolding Let_def
    apply (intro conjI)
    using c sub gone apply blast
    using o apply simp
    using n apply simp
    using cr apply simp
    using calls apply simp
    using wr apply simp
    using wr apply simp
    done
qed

text \<open>
  An instance: a client with another listener, the observable of the counter record 1
  with one observer, idle after its first execution.
\<close>

theorem last_observer_unsubscribes_witness:
  "observers (run (observeRecord counter ''1'') [Subscribe 0, RunReaction 2, RunReaction 2]
      (initial_world listening_client)) = [0] \<and>
   changeSubscriptions (client (run (observeRecord counter ''1'')
      [Subscribe 0, RunReaction 2, RunReaction 2] (initial_world listening_client))) =
     [Callback 0 PlainHandler, Callback 1 (RecordHandler counter ''1'')] \<and>
   changeSubscriptions (client (run (observeRecord counter ''1'')
      [Subscribe 0, RunReaction 2, RunReaction 2, Unsubscribe 0]
      (initial_world listening_client))) = [Callback 0 PlainHandler] \<and>
   started (run (observeRecord counter ''1'')
      [Subscribe 0, RunReaction 2, RunReaction 2, Unsubscribe 0, WriteRecordMap counter_one]
      (initial_world listening_client)) = [2]"
  using last_observer_unsubscribes [of
      "run (observeRecord counter ''1'') [Subscribe 0, RunReaction 2, RunReaction 2]
         (initial_world listening_client)"
      "observeRecord counter ''1''" "[Subscribe 0, RunReaction 2, RunReaction 2]"
      listening_client 0 counter_one]
  by (simp add: world_defs)


section \<open>A failed execution\<close>

lemma step_disconnected:
  assumes "connection w = None" and "\<And>obs. ev \<noteq> Subscribe obs"
  shows "connection (step args ev w) = None \<and> started (step args ev w) = started w \<and>
         received (step args ev w) = received w"
proof (cases ev)
  case (Subscribe obs)
  with assms(2) have False by blast
  then show ?thesis ..
next
  case (Unsubscribe obs)
  then show ?thesis using assms(1) by (simp add: unsubscribe_def teardown_def Let_def)
next
  case (WriteRecordMap rm)
  then show ?thesis using assms(1) by (simp add: do_write_disconnected)
next
  case (RunReaction e)
  then show ?thesis using assms(1)
    by (simp add: run_reaction_def switchMap_inner_def throttle_duration_def
        split: option.splits list.splits reaction.splits)
qed

lemma run_disconnected:
  assumes "connection w = None" and "\<forall>ev \<in> set evs. \<forall>obs. ev \<noteq> Subscribe obs"
  shows "connection (run args evs w) = None \<and> started (run args evs w) = started w \<and>
         received (run args evs w) = received w"
  using assms
proof (induction evs arbitrary: w)
  case Nil
  then show ?case by (simp add: run_def)
next
  case (Cons ev evs)
  have s: "connection (step args ev w) = None \<and> started (step args ev w) = started w \<and>
         received (step args ev w) = received w"
    using Cons.prems by (intro step_disconnected) auto
  have "connection (run args evs (step args ev w)) = None \<and>
        started (run args evs (step args ev w)) = started (step args ev w) \<and>
        received (run args evs (step args ev w)) = received (step args ev w)"
    using Cons.prems s by (intro Cons.IH) auto
  then show ?case using s by (simp add: run_def)
qed

text \<open>
  Claim C7, as amended. In any state that an observable can reach: when the execution
  in flight on the connection fails, the reaction to its promise sends the error to
  every observer and ends the connection: the observers are dropped and the connection's
  callback is unsubscribed from the client. No execution is started then, and none by
  anything that happens later (a write, the second reaction to the failed promise,
  reactions to other promises) until an observer subscribes again; nothing more is
  sent to the former observers.
\<close>

theorem failed_execution_ends_connection:
  assumes "w = run args events (initial_world cl)"
    and "connection w = Some c" and "innerSubscriber c = Some e"
    and "promises w e = Some p" and "outcome p = Inl err"
    and "\<forall>ev \<in> set later. \<forall>obs. ev \<noteq> Subscribe obs"
  shows "let w' = step args (RunReaction e) w; w'' = run args later w' in
           received w' = received w @ [(e, observers w, Inl err)] \<and>
           observers w' = [] \<and> connection w' = None \<and>
           conn_callback c \<notin> set (changeSubscriptions (client w')) \<and>
           started w' = started w \<and>
           connection w'' = None \<and> started w'' = started w \<and> received w'' = received w'"
proof -
  have i: "inv args w" using assms(1) by (simp add: inv_run)
  note f = inv_inner_facts [OF i assms(2) assms(3)]
  have r: "reactions p = [SwitchMapInner, ThrottleDuration]" using f(2) assms(4) by auto
  let ?w' = "step args (RunReaction e) w"
  have eq: "?w' =
     w\<lparr>promises := (promises w)(e \<mapsto> p\<lparr>reactions := [ThrottleDuration]\<rparr>),
       completed := completed w @ [e],
       received := received w @ [(e, observers w, Inl err)],
       observers := [],
       connection := None,
       client := unsubscribeFromRowChanges (conn_callback c) (client w)\<rparr>"
    using assms(2-5) r
    by (simp add: run_reaction_def switchMap_inner_def connection_error_def teardown_def)
  have n: "connection ?w' = None" using eq by simp
  note l = run_disconnected [OF n assms(6), of args]
  show ?thesis
    unfolding Let_def
    apply (intro conjI)
    using eq apply simp
    using eq apply simp
    using eq apply simp
    using eq apply (simp add: unsubscribeFromRowChanges_def)
    using eq apply simp
    using l apply simp
    using l eq apply simp
    using l apply simp
    done
qed

text \<open>
  An instance: the broken query with two observers and a signal pending when the
  execution fails.
\<close>

theorem failed_execution_ends_connection_witness:
  "received (run broken_query [Subscribe 0, Subscribe 1, WriteRecordMap counter_one, RunReaction 1]
      (initial_world new_client)) =
     [(1, [0, 1], Inl (SQLite3Error ''no such table: thread_message''))] \<and>
   started (run broken_query
      [Subscribe 0, Subscribe 1, WriteRecordMap counter_one, RunReaction 1, RunReaction 1,
       WriteRecordMap counter_two, Unsubscribe 0]
      (initial_world new_client)) = [1]"
  using failed_execution_ends_connection [of
      "run broken_query [Subscribe 0, Subscribe 1, WriteRecordMap counter_one] (initial_world new_client)"
      broken_query "[Subscribe 0, Subscribe 1, WriteRecordMap counter_one]" new_client
      "\<lparr>conn_callback = Callback 0 (QueryHandler [''counter'', ''thread_message'']),
        hasValue = True, throttled = Some 1, innerSubscriber = Some 1\<rparr>" 1
      "\<lparr>owner = 0, outcome = Inl (SQLite3Error ''no such table: thread_message''),
        reactions = [SwitchMapInner, ThrottleDuration]\<rparr>"
      "SQLite3Error ''no such table: thread_message''"
      "[RunReaction 1, WriteRecordMap counter_two, Unsubscribe 0]"]
  by (simp add: world_defs)

text \<open>
  Claim C7 as stated fails: the broken query is what \<open>observeQuery\<close> makes of a text
  that reads \<open>counter\<close> and \<open>thread_message\<close>. With one observer, a write to
  \<open>counter\<close> arrives while the first execution is in flight, so that a rerun is pending.
  The execution fails. Then the pending rerun is not started, the callback is no longer
  subscribed to the client, and a later write to \<open>counter\<close> starts no execution either:
  the only execution ever started is the first.
\<close>

theorem failed_execution_is_fatal:
  "observeQuery
     (\<lambda>sqlQuery. Inr [Statement [''counter'', ''thread_message'']]) missing_table
     \<lparr>sql_text = ''SELECT * FROM counter, thread_message'', sql_values = []\<rparr> = Inr broken_query \<and>
   (let w = run broken_query [Subscribe 0, WriteRecordMap counter_one] (initial_world new_client)
    in in_flight w 1 \<and> map_option hasValue (connection w) = Some True \<and>
       observers w = [0]) \<and>
   (let w = run broken_query
              [Subscribe 0, WriteRecordMap counter_one, RunReaction 1, RunReaction 1,
               WriteRecordMap counter_two]
              (initial_world new_client)
    in started w = [1] \<and> connection w = None \<and> changeSubscriptions (client w) = [] \<and>
       received w = [(1, [0], Inl (SQLite3Error ''no such table: thread_message''))])"
  by (simp add: world_defs observeQuery_def parseTestTableNames_def in_flight_def)


section \<open>Signals during an execution\<close>

lemma world_connection_same: "connection w = x \<Longrightarrow> w\<lparr>connection := x\<rparr> = w"
  by (cases w) auto

lemma connection_hasValue_same: "hasValue c = b \<Longrightarrow> c\<lparr>hasValue := b\<rparr> = c"
  by (cases c) auto

lemma fold_calls_throttled:
  assumes "connection w = Some c" and "throttled c = Some e"
  shows "fold (call_callback args) calls w =
     w\<lparr>connection := Some (c\<lparr>hasValue := hasValue c \<or>
        list_ex (\<lambda>call. fst call = conn_callback c \<and>
                        calls_onChange (callback_handler (fst call)) (snd call)) calls\<rparr>)\<rparr>"
  using assms
proof (induction calls arbitrary: w c)
  case Nil
  have "c\<lparr>hasValue := hasValue c\<rparr> = c" by simp
  then show ?case using Nil by (simp add: world_connection_same)
next
  case (Cons call calls)
  let ?f = "fst call = conn_callback c \<and> calls_onChange (callback_handler (fst call)) (snd call)"
  let ?c = "c\<lparr>hasValue := hasValue c \<or> ?f\<rparr>"
  have s: "call_callback args call w = w\<lparr>connection := Some ?c\<rparr>"
  proof (cases ?f)
    case True
    then show ?thesis using Cons.prems
      by (simp add: call_callback_def throttle_next_def Let_def)
  next
    case False
    then have "?c = c" by (intro connection_hasValue_same) auto
    then have "w\<lparr>connection := Some ?c\<rparr> = w"
      using Cons.prems by (simp add: world_connection_same)
    moreover have "call_callback args call w = w"
      using False Cons.prems by (auto simp: call_callback_def)
    ultimately show ?thesis by simp
  qed
  have "fold (call_callback args) calls (w\<lparr>connection := Some ?c\<rparr>) =
     (w\<lparr>connection := Some ?c\<rparr>)\<lparr>connection := Some (?c\<lparr>hasValue := hasValue ?c \<or>
        list_ex (\<lambda>call. fst call = conn_callback ?c \<and>
                        calls_onChange (callback_handler (fst call)) (snd call)) calls\<rparr>)\<rparr>"
    using Cons.prems by (intro Cons.IH) simp_all
  then show ?case using s by (simp add: disj_assoc)
qed

lemma do_write_throttled:
  assumes "connection w = Some c" and "throttled c = Some e"
  shows "do_write args rm w =
     w\<lparr>client := client_after (writeRecordMap sqlite_exec (client w) rm),
       connection := Some (c\<lparr>hasValue := hasValue c \<or> signals w rm\<rparr>)\<rparr>"
  using assms
  by (simp add: do_write_def Let_def fold_calls_throttled [where e = e] signals_def)

lemma writes_throttled:
  assumes "connection w = Some c" and "throttled c = Some e"
  shows "\<exists>cl'. run args (map WriteRecordMap writes) w =
     w\<lparr>client := cl',
       connection := Some (c\<lparr>hasValue := hasValue c \<or> 0 < signal_count args w writes\<rparr>)\<rparr>"
  using assms
proof (induction writes arbitrary: w c)
  case Nil
  have "w\<lparr>connection := Some c\<rparr> = w"
    using Nil by (simp add: world_connection_same)
  then have "w = w\<lparr>client := client w, connection := Some (c\<lparr>hasValue := hasValue c\<rparr>)\<rparr>"
    by simp
  then have "run args (map WriteRecordMap []) w =
     w\<lparr>client := client w,
       connection := Some (c\<lparr>hasValue := hasValue c \<or> 0 < signal_count args w []\<rparr>)\<rparr>"
    by (simp add: run_def)
  then show ?case by blast
next
  case (Cons rm writes)
  let ?c = "c\<lparr>hasValue := hasValue c \<or> signals w rm\<rparr>"
  let ?w = "step args (WriteRecordMap rm) w"
  have s: "?w = w\<lparr>client := client_after (writeRecordMap sqlite_exec (client w) rm),
       connection := Some ?c\<rparr>"
    using Cons.prems by (simp add: do_write_throttled)
  have "\<exists>cl'. run args (map WriteRecordMap writes) ?w =
     ?w\<lparr>client := cl',
       connection := Some (?c\<lparr>hasValue := hasValue ?c \<or> 0 < signal_count args ?w writes\<rparr>)\<rparr>"
    using Cons.prems s by (intro Cons.IH) simp_all
  then obtain cl' where "run args (map WriteRecordMap writes) ?w =
     ?w\<lparr>client := cl',
       connection := Some (?c\<lparr>hasValue := hasValue ?c \<or> 0 < signal_count args ?w writes\<rparr>)\<rparr>"
    by blast
  then have "run args (map WriteRecordMap (rm # writes)) w =
     w\<lparr>client := cl',
       connection := Some (c\<lparr>hasValue := hasValue c \<or> 0 < signal_count args w (rm # writes)\<rparr>)\<rparr>"
    using s by (auto simp: run_def disj_assoc)
  then show ?case by blast
qed

text \<open>
  Claim C1, as amended. In any state that an observable can reach, let an execution
  \<open>e\<close> be in flight on the connection, with a promise that is fulfilled (the query
  succeeded). Let any number of calls of \<open>writeRecordMap\<close> follow, at least one of
  them a staleness signal, and then the two reactions to the promise of \<open>e\<close>. Then no
  execution is started during the writes; the observers receive the result of \<open>e\<close>;
  exactly one more execution is started, by the second reaction; what it will be settled
  with is \<open>runQuery\<close> on the database as it is after all the writes; and when that
  is a result, the reaction to the new promise sends it to the observers. Starting the
  rerun uses up the pending signal: the connection then holds no pending value and waits
  for the new execution, and when no further signal arrives, the two reactions to the new
  promise, whatever it is settled with, start no further execution.
\<close>

theorem signals_coalesce:
  assumes "w = run args events (initial_world cl)"
    and "connection w = Some c" and "innerSubscriber c = Some e"
    and "promises w e = Some p" and "outcome p = Inr rows"
    and "1 \<le> signal_count args w writes"
  shows "let w1 = run args (map WriteRecordMap writes) w;
             w2 = run args [RunReaction e, RunReaction e] w1
         in started w1 = started w \<and>
            started w2 = started w @ [next_id w] \<and>
            map_option outcome (promises w2 (next_id w)) = Some (runQuery args (db (client w1))) \<and>
            in_flight w2 (next_id w) \<and>
            received w2 = received w @ [(e, observers w, Inr rows)] \<and>
            (\<forall>rows'. runQuery args (db (client w1)) = Inr rows' \<longrightarrow>
               received (step args (RunReaction (next_id w)) w2) =
                 received w2 @ [(next_id w, observers w, Inr rows')]) \<and>
            connection w2 =
              Some (c\<lparr>hasValue := False, innerSubscriber := Some (next_id w),
                      throttled := Some (next_id w)\<rparr>) \<and>
            started (run args [RunReaction (next_id w), RunReaction (next_id w)] w2) =
              started w @ [next_id w]"
proof -
  have i: "inv args w" using assms(1) by (simp add: inv_run)
  note f = inv_inner_facts [OF i assms(2) assms(3)]
  have r: "reactions p = [SwitchMapInner, ThrottleDuration]" using f(2) assms(4) by auto
  have ne: "e \<noteq> next_id w" using f(3) by simp
  obtain cl' where w1: "run args (map WriteRecordMap writes) w =
     w\<lparr>client := cl', connection := Some (c\<lparr>hasValue := True\<rparr>)\<rparr>"
    using writes_throttled [OF assms(2) f(1), of args writes] assms(6) by auto
  let ?w1 = "run args (map WriteRecordMap writes) w"
  let ?w2 = "run args [RunReaction e, RunReaction e] ?w1"
  have w2: "?w2 =
     w\<lparr>client := cl',
       promises := (promises w)(e \<mapsto> p\<lparr>reactions := []\<rparr>,
          next_id w \<mapsto> \<lparr>owner = callback_id (conn_callback c),
                         outcome = runQuery args (db cl'),
                         reactions = [SwitchMapInner, ThrottleDuration]\<rparr>),
       completed := completed w @ [e],
       received := received w @ [(e, observers w, Inr rows)],
       query := Some (next_id w),
       next_id := Suc (next_id w),
       started := started w @ [next_id w],
       connection := Some (c\<lparr>hasValue := False, innerSubscriber := Some (next_id w),
                              throttled := Some (next_id w)\<rparr>)\<rparr>"
    unfolding w1 using assms(3-5) r f(1)
    by (simp add: run_def run_reaction_def switchMap_inner_def throttle_duration_def send_def
        Let_def)
  have l: "\<And>rows'. runQuery args (db cl') = Inr rows' \<Longrightarrow>
      received (step args (RunReaction (next_id w)) ?w2) =
        received ?w2 @ [(next_id w, observers w, Inr rows')]"
    unfolding w2 using ne
    by (simp add: run_reaction_def switchMap_inner_def)
  have once: "started (run args [RunReaction (next_id w), RunReaction (next_id w)] ?w2) =
      started w @ [next_id w]"
  proof (cases "runQuery args (db cl')")
    case (Inl err)
    then show ?thesis
      unfolding w2 using ne
      by (simp add: run_def run_reaction_def switchMap_inner_def throttle_duration_def
          connection_error_def teardown_def send_def Let_def)
  next
    case (Inr rows')
    then show ?thesis
      unfolding w2 using ne
      by (simp add: run_def run_reaction_def switchMap_inner_def throttle_duration_def
          send_def Let_def)
  qed
  show ?thesis
    unfolding Let_def
    apply (intro conjI allI impI)
    using w1 apply simp
    using w2 apply simp
    using w2 w1 ne apply simp
    using w2 ne apply (simp add: in_flight_def)
    using w2 apply simp
    using l w1 apply simp
    using w2 apply simp
    using once apply simp
    done
qed

text \<open>
  An instance: the observable of the counter record 1 with one observer, its first
  execution in flight. Two writes to the key 1 are signals; a third write changes the row
  under another key and is no signal. One execution follows, and it reads the value of
  the third write; when it has completed, the observable is idle and the executions
  started are still these two.
\<close>

theorem signals_coalesce_witness:
  "signal_count (observeRecord counter ''1'')
     (run (observeRecord counter ''1'') [Subscribe 0] (initial_world new_client))
     [counter_one, counter_two, counter_moved] = 2 \<and>
   started (run (observeRecord counter ''1'')
     [Subscribe 0, WriteRecordMap counter_one, WriteRecordMap counter_two,
      WriteRecordMap counter_moved, RunReaction 1, RunReaction 1]
     (initial_world new_client)) = [1, 2] \<and>
   map_option outcome (promises (run (observeRecord counter ''1'')
     [Subscribe 0, WriteRecordMap counter_one, WriteRecordMap counter_two,
      WriteRecordMap counter_moved, RunReaction 1, RunReaction 1]
     (initial_world new_client)) 2) = Some (Inr (Some (CounterRow ''1'' (SqlInteger 3)))) \<and>
   map_option hasValue (connection (run (observeRecord counter ''1'')
     [Subscribe 0, WriteRecordMap counter_one, WriteRecordMap counter_two,
      WriteRecordMap counter_moved, RunReaction 1, RunReaction 1]
     (initial_world new_client))) = Some False \<and>
   started (run (observeRecord counter ''1'')
     [Subscribe 0, WriteRecordMap counter_one, WriteRecordMap counter_two,
      WriteRecordMap counter_moved, RunReaction 1, RunReaction 1, RunReaction 2, RunReaction 2]
     (initial_world new_client)) = [1, 2]"
  using signals_coalesce [of
      "run (observeRecord counter ''1'') [Subscribe 0] (initial_world new_client)"
      "observeRecord counter ''1''" "[Subscribe 0]" new_client
      "\<lparr>conn_callback = Callback 0 (RecordHandler counter ''1''), hasValue = False,
        throttled = Some 1, innerSubscriber = Some 1\<rparr>" 1
      "\<lparr>owner = 0, outcome = Inr None, reactions = [SwitchMapInner, ThrottleDuration]\<rparr>"
      None "[counter_one, counter_two, counter_moved]"]
  by (simp add: world_defs signals_def)

text \<open>
  Claim C1 as stated fails when the execution in flight fails: the broken query with one
  observer gets two signals while its first execution is in flight, and after both
  reactions to the rejected promise no further execution has been started.
\<close>

theorem pending_rerun_lost_on_failure:
  "(let w = run broken_query [Subscribe 0] (initial_world new_client)
    in observers w = [0] \<and> in_flight w 1 \<and>
       signal_count broken_query w [counter_one, counter_two] = 2) \<and>
   started (run broken_query
     [Subscribe 0, WriteRecordMap counter_one, WriteRecordMap counter_two,
      RunReaction 1, RunReaction 1]
     (initial_world new_client)) = [1]"
  by (simp add: world_defs signals_def in_flight_def)


section \<open>One execution at a time\<close>




end
